theory Spec2Isabelle
  imports Complex_Main "HOL-Library.Sublist"
begin

section \<open>Data model\<close>

text \<open>
  The server of \<^verbatim>\<open>src/server.ts\<close> keeps three variables in the closure of
  \<^verbatim>\<open>startServer\<close>: the device handle \<^verbatim>\<open>ebb\<close> (or null), the array of
  connected sockets \<^verbatim>\<open>clients\<close> and the flag \<^verbatim>\<open>cancelRequested\<close>.
  Everything the server does to the outside (a device command, a message written to a socket,
  a console line, a timer, a wake lock) is recorded, in the order of the calls, in
  \<open>trace\<close>.
\<close>

type_synonym ws = nat

text \<open>
  Modelled from the spec: the module \<^verbatim>\<open>planning\<close> (classes \<^verbatim>\<open>Plan\<close>,
  \<^verbatim>\<open>PenMotion\<close>, \<^verbatim>\<open>XYMotion\<close>) is missing. A plan is an ordered sequence of
  motions, a motion is a pen-height motion or a positional motion, and every motion has an
  estimated duration in seconds.
\<close>

datatype motion =
    PenMotion (initialPos: int) (finalPos: int) (pDuration: real)
  | XYMotion (xyDuration: real)

fun duration :: "motion \<Rightarrow> real" where
  "duration (PenMotion a b d) = d"
| "duration (XYMotion d) = d"

fun isPenMotion :: "motion \<Rightarrow> bool" where
  "isPenMotion (PenMotion a b d) = True"
| "isPenMotion (XYMotion d) = False"

record plan =
  motions :: "motion list"

datatype msg =
    Pong
  | Dev "string option"
  | Progress nat
  | Finished
  | Cancelled

datatype command =
    EnableMotors nat
  | SetPenHeight int nat "nat option"
  | ExecuteMotion motion
  | WaitUntilMotorsIdle
  | DisableMotors

datatype error =
    TypeError
  | SyntaxError
  | DeviceError string
  | TransportError ws
  | DiscoveryError string
  | OpenError string
  | WakeLockError
  | MalformedPlan

datatype logline =
    ReceivedPlan
  | BeginningPlot
  | SimulatingPlot
  | PlotTook
  | MotionOf nat nat
  | FoundEBB string
  | LostConnection
  | ErrorConnecting error
  | RetryingIn5

datatype event =
    Device command
  | Broadcast msg
  | WsSend ws msg
  | Warn error
  | Log logline
  | LogError logline
  | Sleep real
  | Respond nat
  | NewWakeLock
  | ReleaseWakeLock

record server =
  ebb :: "string option"
  clients :: "ws list"
  cancelRequested :: bool
  trace :: "event list"

text \<open>
  The points at which a plot is suspended (\<^verbatim>\<open>await\<close>). While the plot is suspended
  the event loop may run the handler of \<^verbatim>\<open>POST /cancel\<close>, and the awaited promise
  is resolved or rejected.
\<close>

datatype await_point =
    AwaitEnableMotors
  | AwaitInitialPen
  | AwaitMotion nat
  | AwaitRaisePen
  | AwaitMotorsIdle
  | AwaitDisableMotors

text \<open>
  What the server does not decide itself: whether the promise awaited at a point is rejected
  (and with which error), whether a cancel request arrives while the plot is suspended there,
  whether writing to a socket throws, whether the wake lock can be created, and
  \<^verbatim>\<open>Device.Axidraw.penPctToPos\<close> (module \<^verbatim>\<open>planning\<close>, missing).
\<close>

record env =
  outcome :: "await_point \<Rightarrow> error option"
  cancelArrives :: "await_point \<Rightarrow> bool"
  sendFails :: "ws \<Rightarrow> bool"
  wakeLockFails :: bool
  penPctToPos :: "nat \<Rightarrow> int"

section \<open>Statements, exceptions and blocks\<close>

text \<open>
  A statement takes the server state and returns the state it leaves together with
  \<open>None\<close> (normal completion) or \<open>Some e\<close> (the exception \<open>e\<close> was thrown).
\<close>

type_synonym stmt = "server \<Rightarrow> error option \<times> server"

definition emit :: "event \<Rightarrow> server \<Rightarrow> server" where
  "emit e s = s\<lparr>trace := trace s @ [e]\<rparr>"

definition do_emit :: "event \<Rightarrow> stmt" where
  "do_emit e s = (None, emit e s)"

definition throw :: "error \<Rightarrow> stmt" where
  "throw e s = (Some e, s)"

definition andThen :: "stmt \<Rightarrow> stmt \<Rightarrow> stmt" where
  "andThen f g s = (case f s of (None, s') \<Rightarrow> g s' | (Some e, s') \<Rightarrow> (Some e, s'))"

fun block :: "stmt list \<Rightarrow> stmt" where
  "block [] s = (None, s)"
| "block (f # fs) s = andThen f (block fs) s"

definition try_catch :: "stmt \<Rightarrow> (error \<Rightarrow> stmt) \<Rightarrow> stmt" where
  "try_catch f h s = (case f s of (None, s') \<Rightarrow> (None, s') | (Some e, s') \<Rightarrow> h e s')"

definition try_finally :: "stmt \<Rightarrow> stmt \<Rightarrow> stmt" where
  "try_finally f g s =
     (case f s of (r, s') \<Rightarrow>
        (case g s' of (None, s'') \<Rightarrow> (r, s'') | (Some e, s'') \<Rightarrow> (Some e, s'')))"

fun forEach :: "('a \<Rightarrow> stmt) \<Rightarrow> 'a list \<Rightarrow> stmt" where
  "forEach f [] s = (None, s)"
| "forEach f (x # xs) s = andThen (f x) (forEach f xs) s"

section \<open>The cancel request and the suspension of a plot\<close>

text \<open>\<^verbatim>\<open>app.post("/cancel")\<close>: set the flag, answer 200.\<close>

definition post_cancel :: "server \<Rightarrow> server" where
  "post_cancel s = emit (Respond 200) (s\<lparr>cancelRequested := True\<rparr>)"

definition suspend :: "env \<Rightarrow> await_point \<Rightarrow> server \<Rightarrow> server" where
  "suspend E p s = (if cancelArrives E p then post_cancel s else s)"

text \<open>
  \<^verbatim>\<open>await ebb.command(...)\<close>: the command is issued, the plot is suspended, and the
  promise is resolved or rejected. A call that throws because \<^verbatim>\<open>ebb\<close> has become null
  during the plot is a rejected one.
\<close>

definition ebb_await :: "env \<Rightarrow> command \<Rightarrow> await_point \<Rightarrow> stmt" where
  "ebb_await E c p s = (outcome E p, suspend E p (emit (Device c) s))"

text \<open>\<^verbatim>\<open>await new Promise((resolve) => setTimeout(resolve, ms))\<close>: never rejected.\<close>

definition sleep_await :: "env \<Rightarrow> real \<Rightarrow> await_point \<Rightarrow> stmt" where
  "sleep_await E ms p s = (None, suspend E p (emit (Sleep ms) s))"

definition set_cancelRequested :: "bool \<Rightarrow> stmt" where
  "set_cancelRequested b s = (None, s\<lparr>cancelRequested := b\<rparr>)"

section \<open>The notification hub\<close>

text \<open>\<^verbatim>\<open>ws.send(JSON.stringify(msg))\<close>: the call is recorded; it may throw.\<close>

definition ws_send :: "env \<Rightarrow> ws \<Rightarrow> msg \<Rightarrow> stmt" where
  "ws_send E w m s =
     (if sendFails E w then (Some (TransportError w), emit (WsSend w m) s)
      else (None, emit (WsSend w m) s))"

text \<open>
  \<^verbatim>\<open>broadcast\<close>: for each client, try to send and warn on an exception. The
  call itself is recorded first.
\<close>

definition broadcast :: "env \<Rightarrow> msg \<Rightarrow> stmt" where
  "broadcast E m s =
     forEach (\<lambda>w. try_catch (ws_send E w m) (\<lambda>e. do_emit (Warn e)))
       (clients s) (emit (Broadcast m) s)"

section \<open>The plot execution engine\<close>

text \<open>The \<^verbatim>\<open>for\<close> loop of \<^verbatim>\<open>doPlot\<close>, at motion index \<open>i\<close>.\<close>

fun doPlot_loop :: "env \<Rightarrow> motion list \<Rightarrow> nat \<Rightarrow> stmt" where
  "doPlot_loop E [] i s = (None, s)"
| "doPlot_loop E (motion # rest) i s =
     block [
       broadcast E (Progress i),
       ebb_await E (ExecuteMotion motion) (AwaitMotion i),
       (\<lambda>s. if cancelRequested s then (None, s) else doPlot_loop E rest (i + 1) s)
     ] s"

definition doPlot :: "env \<Rightarrow> plan \<Rightarrow> stmt" where
  "doPlot E plan =
     block [
       ebb_await E (EnableMotors 2) AwaitEnableMotors,
       (\<lambda>s. case find isPenMotion (motions plan) of
               None \<Rightarrow> throw TypeError s
             | Some firstPenMotion \<Rightarrow>
                 ebb_await E (SetPenHeight (initialPos firstPenMotion) 1000 (Some 1000))
                   AwaitInitialPen s),
       set_cancelRequested False,
       doPlot_loop E (motions plan) 0,
       (\<lambda>s. if cancelRequested s then
               block [
                 ebb_await E (SetPenHeight (penPctToPos E 0) 1000 None) AwaitRaisePen,
                 broadcast E Cancelled,
                 set_cancelRequested False
               ] s
             else broadcast E Finished s),
       ebb_await E WaitUntilMotorsIdle AwaitMotorsIdle,
       ebb_await E DisableMotors AwaitDisableMotors
     ]"

text \<open>The loop of \<^verbatim>\<open>simulatePlot\<close>; \<open>n\<close> is \<^verbatim>\<open>plan.motions.length\<close>.\<close>

fun simulatePlot_loop :: "env \<Rightarrow> nat \<Rightarrow> motion list \<Rightarrow> nat \<Rightarrow> stmt" where
  "simulatePlot_loop E n [] i s = (None, s)"
| "simulatePlot_loop E n (motion # rest) i s =
     block [
       do_emit (Log (MotionOf (i + 1) n)),
       broadcast E (Progress i),
       sleep_await E (duration motion * 1000) (AwaitMotion i),
       (\<lambda>s. if cancelRequested s then (None, s) else simulatePlot_loop E n rest (i + 1) s)
     ] s"

definition simulatePlot :: "env \<Rightarrow> plan \<Rightarrow> stmt" where
  "simulatePlot E plan =
     block [
       set_cancelRequested False,
       simulatePlot_loop E (length (motions plan)) (motions plan) 0,
       (\<lambda>s. if cancelRequested s then
               block [broadcast E Cancelled, set_cancelRequested False] s
             else broadcast E Finished s)
     ]"

section \<open>Reading a trace\<close>

text \<open>
  The events a statement adds to the trace when it is run in the state \<open>s\<close>.
\<close>

definition events :: "stmt \<Rightarrow> server \<Rightarrow> event list" where
  "events f s = drop (length (trace s)) (trace (snd (f s)))"

text \<open>
  Projections of a trace: the messages passed to \<^verbatim>\<open>broadcast\<close>, the commands sent to
  the device, the calls of \<^verbatim>\<open>send\<close> with their socket, the exceptions passed to
  \<^verbatim>\<open>console.warn\<close>.
\<close>

fun bcast_of :: "event \<Rightarrow> msg list" where
  "bcast_of (Broadcast m) = [m]"
| "bcast_of e = []"

definition broadcasts :: "event list \<Rightarrow> msg list" where
  "broadcasts t = concat (map bcast_of t)"

fun cmd_of :: "event \<Rightarrow> command list" where
  "cmd_of (Device c) = [c]"
| "cmd_of e = []"

definition commands :: "event list \<Rightarrow> command list" where
  "commands t = concat (map cmd_of t)"

fun send_of :: "event \<Rightarrow> (ws \<times> msg) list" where
  "send_of (WsSend w m) = [(w, m)]"
| "send_of e = []"

definition sends :: "event list \<Rightarrow> (ws \<times> msg) list" where
  "sends t = concat (map send_of t)"

fun warn_of :: "event \<Rightarrow> error list" where
  "warn_of (Warn e) = [e]"
| "warn_of e = []"

definition warnings :: "event list \<Rightarrow> error list" where
  "warnings t = concat (map warn_of t)"

text \<open>
  What an observer of a plot sees: the commands sent to the device, the calls of
  \<^verbatim>\<open>broadcast\<close> and the timers (not the single writes to the sockets, the console
  lines and the answers to cancel requests).
\<close>

fun is_plot_event :: "event \<Rightarrow> bool" where
  "is_plot_event (Device c) = True"
| "is_plot_event (Broadcast m) = True"
| "is_plot_event (Sleep d) = True"
| "is_plot_event e = False"

definition plot_view :: "event list \<Rightarrow> event list" where
  "plot_view t = filter is_plot_event t"

text \<open>The progress messages and the executions of motions (by the device or by a timer).\<close>

fun is_step_event :: "event \<Rightarrow> bool" where
  "is_step_event (Broadcast (Progress i)) = True"
| "is_step_event (Device (ExecuteMotion m)) = True"
| "is_step_event (Sleep d) = True"
| "is_step_event e = False"

definition step_view :: "event list \<Rightarrow> event list" where
  "step_view t = filter is_step_event t"

section \<open>What a plot is expected to do\<close>

text \<open>
  The first motion during whose execution a cancel request arrives, among the \<open>n\<close> motions
  of a plan, and the number of motions that are then executed: all of them, or those up to
  and including that one.
\<close>

definition cancelledAt :: "env \<Rightarrow> nat \<Rightarrow> nat option" where
  "cancelledAt E n = find (\<lambda>i. cancelArrives E (AwaitMotion i)) [0..<n]"

definition motionsRun :: "env \<Rightarrow> nat \<Rightarrow> nat" where
  "motionsRun E n = (case cancelledAt E n of None \<Rightarrow> n | Some c \<Rightarrow> Suc c)"

text \<open>
  The first \<open>k\<close> motions of \<open>ms\<close>, numbered from \<open>i\<close>, each announced by its progress
  message and then executed: by the device, or by a timer of its duration in milliseconds.
\<close>

definition hw_steps :: "motion list \<Rightarrow> nat \<Rightarrow> nat \<Rightarrow> event list" where
  "hw_steps ms i k =
     concat (map (\<lambda>j. [Broadcast (Progress (i + j)), Device (ExecuteMotion (ms ! j))]) [0..<k])"

definition sim_steps :: "motion list \<Rightarrow> nat \<Rightarrow> nat \<Rightarrow> event list" where
  "sim_steps ms i k =
     concat (map (\<lambda>j. [Broadcast (Progress (i + j)), Sleep (duration (ms ! j) * 1000)]) [0..<k])"

text \<open>The end of a plot of \<open>n\<close> motions, after the loop and before the cleanup.\<close>

definition hw_finish :: "env \<Rightarrow> nat \<Rightarrow> event list" where
  "hw_finish E n =
     (if cancelledAt E n = None then [Broadcast Finished]
      else [Device (SetPenHeight (penPctToPos E 0) 1000 None), Broadcast Cancelled])"

definition sim_finish :: "env \<Rightarrow> nat \<Rightarrow> event list" where
  "sim_finish E n =
     (if cancelledAt E n = None then [Broadcast Finished] else [Broadcast Cancelled])"

text \<open>
  The cleanup of \<^verbatim>\<open>doPlot\<close>. The plot reaches it when every device operation
  before it has succeeded: \<^verbatim>\<open>enableMotors\<close>, the first
  \<^verbatim>\<open>setPenHeight\<close>, the motions executed, and the raising of the pen if the plot
  was cancelled. Then \<^verbatim>\<open>waitUntilMotorsIdle\<close> is sent, and after it
  \<^verbatim>\<open>disableMotors\<close> if \<^verbatim>\<open>waitUntilMotorsIdle\<close> succeeded.
\<close>

definition reachesCleanup :: "env \<Rightarrow> nat \<Rightarrow> bool" where
  "reachesCleanup E n =
     (outcome E AwaitEnableMotors = None \<and>
      outcome E AwaitInitialPen = None \<and>
      list_all (\<lambda>j. outcome E (AwaitMotion j) = None) [0..<motionsRun E n] \<and>
      (cancelledAt E n = None \<or> outcome E AwaitRaisePen = None))"

definition cleanup_commands :: "env \<Rightarrow> nat \<Rightarrow> command list" where
  "cleanup_commands E n =
     (if reachesCleanup E n then
        WaitUntilMotorsIdle # (if outcome E AwaitMotorsIdle = None then [DisableMotors] else [])
      else [])"

fun is_cleanup :: "command \<Rightarrow> bool" where
  "is_cleanup WaitUntilMotorsIdle = True"
| "is_cleanup DisableMotors = True"
| "is_cleanup c = False"

text \<open>
  What one call of \<^verbatim>\<open>broadcast\<close> writes after the record of the call: for each client in
  turn the call of \<^verbatim>\<open>send\<close> and, if it throws, the warning.
\<close>

fun deliveries :: "env \<Rightarrow> msg \<Rightarrow> ws list \<Rightarrow> event list" where
  "deliveries E m [] = []"
| "deliveries E m (w # ws) =
     WsSend w m # (if sendFails E w then [Warn (TransportError w)] else []) @ deliveries E m ws"

section \<open>Notions used in the proofs\<close>

text \<open>A statement only adds to the trace.\<close>

definition extends :: "stmt \<Rightarrow> bool" where
  "extends f = (\<forall>s. prefix (trace s) (trace (snd (f s))))"

text \<open>
  The number of motions executed and whether the loop is left by \<^verbatim>\<open>break\<close>, for a loop
  that starts at motion \<open>i\<close> with \<open>n\<close> motions to go.
\<close>

fun run_length :: "env \<Rightarrow> nat \<Rightarrow> nat \<Rightarrow> nat" where
  "run_length E i 0 = 0"
| "run_length E i (Suc n) =
     (if cancelArrives E (AwaitMotion i) then 1 else Suc (run_length E (Suc i) n))"

fun stops :: "env \<Rightarrow> nat \<Rightarrow> nat \<Rightarrow> bool" where
  "stops E i 0 = False"
| "stops E i (Suc n) = (cancelArrives E (AwaitMotion i) \<or> stops E (Suc i) n)"

section \<open>The handlers of the sockets and of the plot request\<close>

text \<open>
  \<^verbatim>\<open>wss.on("connection")\<close>: the socket is pushed on \<^verbatim>\<open>clients\<close> and is sent the
  device state, the path of the port of \<^verbatim>\<open>ebb\<close> or null.
\<close>

definition on_connection :: "env \<Rightarrow> ws \<Rightarrow> stmt" where
  "on_connection E w =
     block [
       (\<lambda>s. (None, s\<lparr>clients := clients s @ [w]\<rparr>)),
       (\<lambda>s. ws_send E w (Dev (ebb s)) s)
     ]"

text \<open>\<^verbatim>\<open>ws.on("close")\<close>.\<close>

definition on_close :: "ws \<Rightarrow> stmt" where
  "on_close w s = (None, s\<lparr>clients := filter (\<lambda>w'. w' \<noteq> w) (clients s)\<rparr>)"

text \<open>
  An inbound frame is binary or text; a text frame goes through \<^verbatim>\<open>JSON.parse\<close>, which
  throws or gives an object with the tag \<^verbatim>\<open>c\<close> and, possibly, the parameters
  \<^verbatim>\<open>p.height\<close> and \<^verbatim>\<open>p.rate\<close>.
\<close>

datatype jsmsg = JsMsg (msg_c: string) (msg_p: "(int \<times> nat) option")

datatype message = Binary | Text "error + jsmsg"

text \<open>
  \<^verbatim>\<open>ws.on("message")\<close>. The commands to the device are not awaited. Reading
  \<^verbatim>\<open>msg.p.height\<close> of a message without \<^verbatim>\<open>p\<close> throws, but it is read only when
  \<^verbatim>\<open>ebb\<close> is set.
\<close>

definition on_message :: "env \<Rightarrow> ws \<Rightarrow> message \<Rightarrow> stmt" where
  "on_message E w message s =
     (case message of
        Binary \<Rightarrow> (None, s)
      | Text parsed \<Rightarrow>
          (case parsed of
             Inl e \<Rightarrow> throw e s
           | Inr msg \<Rightarrow>
               if msg_c msg = ''ping'' then ws_send E w Pong s
               else if msg_c msg = ''limp'' then
                 (if ebb s \<noteq> None then do_emit (Device DisableMotors) s else (None, s))
               else if msg_c msg = ''setPenHeight'' then
                 (if ebb s \<noteq> None then
                    (case msg_p msg of
                       None \<Rightarrow> throw TypeError s
                     | Some (height, rate) \<Rightarrow>
                         do_emit (Device (SetPenHeight height rate None)) s)
                  else (None, s))
               else (None, s)))"

text \<open>
  \<^verbatim>\<open>new WakeLock("saxi plotting")\<close> inside its \<^verbatim>\<open>try\<close>/\<^verbatim>\<open>catch\<close>; the result
  says whether the variable \<^verbatim>\<open>wakeLock\<close> is set.
\<close>

definition new_WakeLock :: "env \<Rightarrow> stmt" where
  "new_WakeLock E s =
     (if wakeLockFails E then (Some WakeLockError, emit NewWakeLock s)
      else (None, emit NewWakeLock s))"

definition acquire_wakeLock :: "env \<Rightarrow> server \<Rightarrow> bool \<times> server" where
  "acquire_wakeLock E s =
     (case new_WakeLock E s of
        (None, s') \<Rightarrow> (True, s')
      | (Some e, s') \<Rightarrow> (False, emit (Warn WakeLockError) s'))"

text \<open>
  \<^verbatim>\<open>app.post("/plot")\<close>, after \<^verbatim>\<open>Plan.deserialize\<close> and up to the second
  \<^verbatim>\<open>try\<close>: two console lines, the answer 200, the wake lock.
\<close>

definition post_plot_begin :: "env \<Rightarrow> server \<Rightarrow> bool \<times> server" where
  "post_plot_begin E s =
     (let s1 = emit (Log ReceivedPlan) s;
          s2 = emit (Log (if ebb s1 \<noteq> None then BeginningPlot else SimulatingPlot)) s1;
          s3 = emit (Respond 200) s2
      in acquire_wakeLock E s3)"

text \<open>\<^verbatim>\<open>ebb != null ? doPlot(plan) : simulatePlot(plan)\<close>.\<close>

definition plot_run :: "env \<Rightarrow> plan \<Rightarrow> stmt" where
  "plot_run E plan s = (if ebb s \<noteq> None then doPlot E plan s else simulatePlot E plan s)"

text \<open>
  \<^verbatim>\<open>app.post("/plot")\<close>. The body is given by what \<^verbatim>\<open>Plan.deserialize\<close> (module
  \<^verbatim>\<open>planning\<close>, missing) makes of it: an exception or a plan.
\<close>

definition post_plot :: "env \<Rightarrow> error + plan \<Rightarrow> stmt" where
  "post_plot E body s =
     (case body of
        Inl e \<Rightarrow> throw e s
      | Inr plan \<Rightarrow>
          (let (wakeLock, s4) = post_plot_begin E s
           in try_finally
                (block [plot_run E plan, do_emit (Log PlotTook)])
                (\<lambda>s. if wakeLock then do_emit ReleaseWakeLock s else (None, s))
                s4))"


section \<open>The connection supervisor\<close>

text \<open>
  The supervisor runs for ever, so it is given the answers of the outside for a finite
  stretch of time: the results of the successive calls of \<^verbatim>\<open>EBB.list()\<close> (an exception
  or the list of the ports found), the results of the successive calls of
  \<^verbatim>\<open>tryOpen\<close> (\<open>None\<close>: the port opened), and the number of opened ports that
  close or fail within this stretch (the ports close in the order in which they were opened:
  at most one is open at a time). When it asks for an answer that is not there, it is
  waiting. The timers of \<^verbatim>\<open>sleep\<close> always fire.
\<close>

record feed =
  lists :: "(error + string list) list"
  opens :: "error option list"
  closes :: nat

datatype 'a awaited = Pending | Rejected error | Resolved 'a

fun waitForEbb ::
  "(error + string list) list \<Rightarrow> server \<Rightarrow> string awaited \<times> (error + string list) list \<times> server"
where
  "waitForEbb [] s = (Pending, [], s)"
| "waitForEbb (Inl e # rest) s = (Rejected e, rest, s)"
| "waitForEbb (Inr ebbs # rest) s =
     (case ebbs of
        [] \<Rightarrow> waitForEbb rest (emit (Sleep 5000) s)
      | com # others \<Rightarrow> (Resolved com, rest, s))"

text \<open>
  The body of the loop of \<^verbatim>\<open>connect\<close>, run at each \<^verbatim>\<open>yield\<close> of the generator:
  \<^verbatim>\<open>ebb = d; broadcast(...)\<close>.
\<close>

definition connect_body :: "env \<Rightarrow> string option \<Rightarrow> stmt" where
  "connect_body E d =
     block [
       (\<lambda>s. (None, s\<lparr>ebb := d\<rparr>)),
       (\<lambda>s. broadcast E (Dev (ebb s)) s)
     ]"

text \<open>
  How one pass through the \<^verbatim>\<open>try\<close> block of \<^verbatim>\<open>ebbs\<close> ends: at its end, by an
  exception thrown inside it, waiting for an answer that the feed does not hold (the next
  result of \<^verbatim>\<open>EBB.list()\<close>, the result of \<^verbatim>\<open>tryOpen\<close> on a port, the close
  of an opened port), or because the consumer of the generator threw at a
  \<^verbatim>\<open>yield\<close> (which ends the generator without running the \<^verbatim>\<open>catch\<close>
  block).
\<close>

datatype pending = ForList | ForOpen string | ForClose string

datatype ending = AtEnd | Thrown error | Waiting pending | ConsumerThrew error

text \<open>\<^verbatim>\<open>path || (await waitForEbb())\<close>: the empty string is falsy.\<close>

definition discover ::
  "string option \<Rightarrow> feed \<Rightarrow> server \<Rightarrow> string awaited \<times> (error + string list) list \<times> server"
where
  "discover path F s =
     (case path of
        Some dev \<Rightarrow> if dev \<noteq> [] then (Resolved dev, lists F, s) else waitForEbb (lists F) s
      | None \<Rightarrow> waitForEbb (lists F) s)"

text \<open>
  From \<^verbatim>\<open>yield new EBB(port)\<close> to the end of the \<^verbatim>\<open>try\<close> block: the port
  \<open>com\<close> has been opened.
\<close>

definition ebbs_session :: "env \<Rightarrow> string \<Rightarrow> feed \<Rightarrow> server \<Rightarrow> ending \<times> feed \<times> server" where
  "ebbs_session E com F s =
     (case connect_body E (Some com) s of
        (Some e, s3) \<Rightarrow> (ConsumerThrew e, F, s3)
      | (None, s3) \<Rightarrow>
          (case closes F of
             0 \<Rightarrow> (Waiting (ForClose com), F, s3)
           | Suc k \<Rightarrow>
               (case connect_body E None s3 of
                  (Some e, s4) \<Rightarrow> (ConsumerThrew e, F\<lparr>closes := k\<rparr>, s4)
                | (None, s4) \<Rightarrow>
                    (AtEnd, F\<lparr>closes := k\<rparr>, emit (LogError LostConnection) s4))))"

definition ebbs_try ::
  "env \<Rightarrow> string option \<Rightarrow> feed \<Rightarrow> server \<Rightarrow> ending \<times> feed \<times> server"
where
  "ebbs_try E path F s =
     (case discover path F s of
        (Pending, ls, s1) \<Rightarrow> (Waiting ForList, F\<lparr>lists := ls\<rparr>, s1)
      | (Rejected e, ls, s1) \<Rightarrow> (Thrown e, F\<lparr>lists := ls\<rparr>, s1)
      | (Resolved com, ls, s1) \<Rightarrow>
          (let s2 = emit (Log (FoundEBB com)) s1 in
           case opens F of
             [] \<Rightarrow> (Waiting (ForOpen com), F\<lparr>lists := ls\<rparr>, s2)
           | Some e # os \<Rightarrow> (Thrown e, F\<lparr>lists := ls, opens := os\<rparr>, s2)
           | None # os \<Rightarrow> ebbs_session E com (F\<lparr>lists := ls, opens := os\<rparr>) s2))"

text \<open>The \<^verbatim>\<open>catch\<close> block of \<^verbatim>\<open>ebbs\<close>.\<close>

definition ebbs_catch :: "error \<Rightarrow> server \<Rightarrow> server" where
  "ebbs_catch e s =
     emit (Sleep 5000) (emit (LogError RetryingIn5) (emit (LogError (ErrorConnecting e)) s))"

definition feed_size :: "feed \<Rightarrow> nat" where
  "feed_size F = length (lists F) + length (opens F) + closes F"

text \<open>
  A pass that does not end waiting has taken an answer from the feed; this is what makes the
  recursion of \<open>connect\<close> below well founded.
\<close>

lemma waitForEbb_length:
  "waitForEbb ls s = (r, ls', s') \<Longrightarrow>
     length ls' \<le> length ls \<and> (r \<noteq> Pending \<longrightarrow> length ls' < length ls)"
proof (induction ls s rule: waitForEbb.induct)
  case (1 s)
  then show ?case by simp
next
  case (2 e rest s)
  then show ?case by auto
next
  case (3 ebbs rest s)
  then show ?case by (cases ebbs) auto
qed

lemma discover_length:
  assumes "discover path F s = (a, ls, s1)"
  shows "length ls \<le> length (lists F)"
    and "a = Rejected e \<Longrightarrow> length ls < length (lists F)"
proof -
  have "(a, ls, s1) = (Resolved (the path), lists F, s) \<or> waitForEbb (lists F) s = (a, ls, s1)"
    using assms by (auto simp: discover_def split: option.splits if_splits)
  then show "length ls \<le> length (lists F)"
    and "a = Rejected e \<Longrightarrow> length ls < length (lists F)"
    using waitForEbb_length [of "lists F" s a ls s1] by auto
qed

lemma ebbs_session_size:
  "ebbs_session E com F s = (r, F', s') \<Longrightarrow> feed_size F' \<le> feed_size F"
  by (auto simp: ebbs_session_def feed_size_def split: prod.splits option.splits nat.splits)

lemma ebbs_try_consumes:
  assumes "ebbs_try E path F s = (r, F', s')" and "\<forall>p. r \<noteq> Waiting p"
  shows "feed_size F' < feed_size F"
proof -
  obtain a ls s1 where d: "discover path F s = (a, ls, s1)"
    by (metis prod_cases3)
  note len = discover_length [OF d]
  show ?thesis
  proof (cases a)
    case Pending
    then show ?thesis using assms d by (auto simp: ebbs_try_def)
  next
    case (Rejected e)
    then have "F' = F\<lparr>lists := ls\<rparr>" using assms d by (simp add: ebbs_try_def)
    then show ?thesis using len(2) [OF Rejected] by (simp add: feed_size_def)
  next
    case (Resolved com)
    show ?thesis
    proof (cases "opens F")
      case Nil
      then show ?thesis using assms d Resolved by (auto simp: ebbs_try_def)
    next
      case (Cons o1 os)
      show ?thesis
      proof (cases o1)
        case (Some e)
        then have "F' = F\<lparr>lists := ls, opens := os\<rparr>"
          using assms d Resolved Cons by (simp add: ebbs_try_def)
        then show ?thesis using len(1) Cons by (simp add: feed_size_def)
      next
        case None
        then have "ebbs_session E com (F\<lparr>lists := ls, opens := os\<rparr>)
            (emit (Log (FoundEBB com)) s1) = (r, F', s')"
          using assms d Resolved Cons by (simp add: ebbs_try_def)
        then have "feed_size F' \<le> feed_size (F\<lparr>lists := ls, opens := os\<rparr>)"
          by (rule ebbs_session_size)
        then show ?thesis using len(1) Cons by (simp add: feed_size_def)
      qed
    qed
  qed
qed

text \<open>
  \<^verbatim>\<open>connect\<close> driving \<^verbatim>\<open>ebbs(path)\<close>: the loop \<^verbatim>\<open>while (true)\<close>. The
  supervisor goes round the loop as long as the feed answers; the result says what it is
  waiting for when the feed no longer does, or that it has stopped because the exception
  \<open>e\<close> left the loop, and gives what is left of the feed.
\<close>

datatype supervision = Awaits pending | Stopped error

function connect ::
  "env \<Rightarrow> string option \<Rightarrow> feed \<Rightarrow> server \<Rightarrow> supervision \<times> feed \<times> server"
where
  "connect E path F s =
     (case ebbs_try E path F s of
        (AtEnd, F', s') \<Rightarrow> connect E path F' s'
      | (Thrown e, F', s') \<Rightarrow> connect E path F' (ebbs_catch e s')
      | (Waiting p, F', s') \<Rightarrow> (Awaits p, F', s')
      | (ConsumerThrew e, F', s') \<Rightarrow> (Stopped e, F', s'))"
  by pat_completeness auto
termination
proof (relation "measure (\<lambda>(E, path, F, s). feed_size F)", goal_cases)
  case 1
  show ?case by simp
next
  case (2 E path F s x y F' s')
  then have "ebbs_try E path F s = (AtEnd, F', s')" by simp
  then have "feed_size F' < feed_size F" by (rule ebbs_try_consumes) simp
  then show ?case by simp
next
  case (3 E path F s x y e F' s')
  then have "ebbs_try E path F s = (Thrown e, F', s')" by simp
  then have "feed_size F' < feed_size F" by (rule ebbs_try_consumes) simp
  then show ?case by simp
qed

declare connect.simps [simp del]

text \<open>The events the supervisor adds to the trace.\<close>

definition supervisor_events :: "env \<Rightarrow> string option \<Rightarrow> feed \<Rightarrow> server \<Rightarrow> event list" where
  "supervisor_events E path F s =
     drop (length (trace s)) (trace (snd (snd (connect E path F s))))"

text \<open>
  A wait of the supervisor is unanswered when the feed holds no answer of the kind awaited:
  no result of \<^verbatim>\<open>EBB.list()\<close>, no result of \<^verbatim>\<open>tryOpen\<close>, or no close of the
  port, which is then the device of the server. The supervisor goes on when it has not
  stopped and its wait is unanswered: it has taken every answer that it was given.
\<close>

fun unanswered :: "pending \<Rightarrow> feed \<Rightarrow> server \<Rightarrow> bool" where
  "unanswered ForList F s = (lists F = [])"
| "unanswered (ForOpen com) F s = (opens F = [])"
| "unanswered (ForClose com) F s = (closes F = 0 \<and> ebb s = Some com)"

fun goes_on :: "supervision \<times> feed \<times> server \<Rightarrow> bool" where
  "goes_on (Awaits p, F, s) = unanswered p F s"
| "goes_on (Stopped e, F, s) = False"

section \<open>Concrete inputs\<close>

text \<open>
  An environment in which nothing fails and no cancel request arrives (with the pen positions
  of the AxiDraw: \<^verbatim>\<open>penPctToPos(0)\<close> is 28000), the same with a cancel request during
  motion \<open>i\<close>, and an environment made to reject the promise awaited at one point.
\<close>

definition quiet :: env where
  "quiet = \<lparr>outcome = (\<lambda>p. None), cancelArrives = (\<lambda>p. False), sendFails = (\<lambda>w. False),
     wakeLockFails = False, penPctToPos = (\<lambda>pct. 28000 - 205 * int pct)\<rparr>"

definition cancel_during :: "nat \<Rightarrow> env" where
  "cancel_during i = quiet\<lparr>cancelArrives := (\<lambda>p. p = AwaitMotion i)\<rparr>"

definition failing_at :: "await_point \<Rightarrow> env \<Rightarrow> env" where
  "failing_at q E =
     E\<lparr>outcome := (\<lambda>p. if p = q then Some (DeviceError ''port closed'') else None)\<rparr>"

text \<open>
  A cancel request sent right after the plot request arrives during the first
  \<^verbatim>\<open>await\<close> of the path taken (the handler of \<^verbatim>\<open>POST /plot\<close> runs without a
  pause up to there): \<^verbatim>\<open>ebb.enableMotors(2)\<close> in \<^verbatim>\<open>doPlot\<close>, the timer of
  motion 0 in \<^verbatim>\<open>simulatePlot\<close>. \<open>cancel_at_start\<close> is the environment of this one
  request; \<open>cancel_also q E\<close> adds to \<open>E\<close> a request arriving during \<open>q\<close>.
\<close>

definition first_await :: "bool \<Rightarrow> await_point" where
  "first_await hardware = (if hardware then AwaitEnableMotors else AwaitMotion 0)"

definition cancel_at_start :: "bool \<Rightarrow> env" where
  "cancel_at_start hardware = quiet\<lparr>cancelArrives := (\<lambda>p. p = first_await hardware)\<rparr>"

definition cancel_also :: "await_point \<Rightarrow> env \<Rightarrow> env" where
  "cancel_also q E = E\<lparr>cancelArrives := (\<lambda>p. p = q \<or> cancelArrives E p)\<rparr>"

text \<open>A server with a device and two clients, and one without a device.\<close>

definition connected :: server where
  "connected = \<lparr>ebb = Some ''/dev/ttyACM0'', clients = [1, 2], cancelRequested = False,
     trace = []\<rparr>"

definition disconnected :: server where
  "disconnected = \<lparr>ebb = None, clients = [1], cancelRequested = False, trace = []\<rparr>"

text \<open>
  A plan that draws one stroke (move, pen down, draw, pen up), and the plan of an empty
  drawing: a single move, no pen motion.
\<close>

definition square :: plan where
  "square = \<lparr>motions = [XYMotion 1, PenMotion 28000 15000 (1/5), XYMotion 2,
     PenMotion 15000 28000 (1/5)]\<rparr>"

definition travel :: plan where
  "travel = \<lparr>motions = [XYMotion 1]\<rparr>"

section \<open>Scenarios for the supervisor\<close>

text \<open>
  A round of the supervisor, that is one pass through its loop: after \<open>n\<close> calls of
  \<^verbatim>\<open>EBB.list()\<close> that find nothing, either a port is found and \<^verbatim>\<open>tryOpen\<close>
  rejects, or \<^verbatim>\<open>EBB.list()\<close> itself rejects, or ports are found, the first one opens
  and later closes (a session). \<open>round_lists\<close>, \<open>round_opens\<close> and \<open>round_closes\<close>
  are the answers the outside gives in such a round. \<open>round_events\<close> is what the supervisor
  is expected to do in it, given the clients registered: one timer of 5000 ms after each
  empty discovery; after a failure two lines on the console and a timer of 5000 ms; in a
  session the broadcast of the path of the port and, when the port has closed, the broadcast
  of null. \<open>round_ebb\<close> is the device handle the round leaves.
\<close>

datatype round =
    OpenFails nat string error
  | ListFails nat error
  | Session nat string "string list"

fun round_lists :: "round \<Rightarrow> (error + string list) list" where
  "round_lists (OpenFails n com e) = replicate n (Inr []) @ [Inr [com]]"
| "round_lists (ListFails n e) = replicate n (Inr []) @ [Inl e]"
| "round_lists (Session n com others) = replicate n (Inr []) @ [Inr (com # others)]"

fun round_opens :: "round \<Rightarrow> error option list" where
  "round_opens (OpenFails n com e) = [Some e]"
| "round_opens (ListFails n e) = []"
| "round_opens (Session n com others) = [None]"

fun round_closes :: "round \<Rightarrow> nat" where
  "round_closes (OpenFails n com e) = 0"
| "round_closes (ListFails n e) = 0"
| "round_closes (Session n com others) = 1"

fun round_events :: "env \<Rightarrow> ws list \<Rightarrow> round \<Rightarrow> event list" where
  "round_events E cs (OpenFails n com e) =
     replicate n (Sleep 5000) @
     [Log (FoundEBB com), LogError (ErrorConnecting e), LogError RetryingIn5, Sleep 5000]"
| "round_events E cs (ListFails n e) =
     replicate n (Sleep 5000) @
     [LogError (ErrorConnecting e), LogError RetryingIn5, Sleep 5000]"
| "round_events E cs (Session n com others) =
     replicate n (Sleep 5000) @
     [Log (FoundEBB com), Broadcast (Dev (Some com))] @ deliveries E (Dev (Some com)) cs @
     [Broadcast (Dev None)] @ deliveries E (Dev None) cs @
     [LogError LostConnection]"

fun round_ebb :: "round \<Rightarrow> string option \<Rightarrow> string option" where
  "round_ebb (OpenFails n com e) d = d"
| "round_ebb (ListFails n e) d = d"
| "round_ebb (Session n com others) d = None"

text \<open>
  \<open>feed_after rs F\<close> puts the answers of the rounds \<open>rs\<close> before the feed \<open>F\<close>;
  \<open>found n com others\<close> is the feed in which, after \<open>n\<close> empty discoveries, the ports
  \<open>com # others\<close> are found and the first one opens (and stays open); \<open>silence\<close> is the
  feed without any answer.
\<close>

definition feed_after :: "round list \<Rightarrow> feed \<Rightarrow> feed" where
  "feed_after rs F =
     \<lparr>lists = concat (map round_lists rs) @ lists F,
      opens = concat (map round_opens rs) @ opens F,
      closes = sum_list (map round_closes rs) + closes F\<rparr>"

definition found :: "nat \<Rightarrow> string \<Rightarrow> string list \<Rightarrow> feed" where
  "found n com others =
     \<lparr>lists = replicate n (Inr []) @ [Inr (com # others)], opens = [None], closes = 0\<rparr>"

definition silence :: feed where
  "silence = \<lparr>lists = [], opens = [], closes = 0\<rparr>"

section \<open>Auxiliary lemmas\<close>

subsection \<open>Statements\<close>

lemma case_result_id [simp]:
  "(case x of (None, s') \<Rightarrow> block [] s' | (Some e, s') \<Rightarrow> (Some e, s')) = x"
  by (simp split: prod.splits option.splits)

lemma emit_fields [simp]:
  "clients (emit e s) = clients s"
  "ebb (emit e s) = ebb s"
  "cancelRequested (emit e s) = cancelRequested s"
  "trace (emit e s) = trace s @ [e]"
  by (simp_all add: emit_def)

lemma suspend_fields [simp]:
  "clients (suspend E p s) = clients s"
  "ebb (suspend E p s) = ebb s"
  "cancelRequested (suspend E p s) = (cancelRequested s \<or> cancelArrives E p)"
  by (simp_all add: suspend_def post_cancel_def)

lemma trace_suspend:
  "trace (suspend E p s) = trace s @ (if cancelArrives E p then [Respond 200] else [])"
  by (simp add: suspend_def post_cancel_def)

lemma andThen_None: "f s = (None, s') \<Longrightarrow> andThen f g s = g s'"
  by (simp add: andThen_def)

lemma andThen_Some: "f s = (Some e, s') \<Longrightarrow> andThen f g s = (Some e, s')"
  by (simp add: andThen_def)

lemma andThen_cases:
  "andThen f g s = (if fst (f s) = None then g (snd (f s)) else f s)"
  by (cases "f s") (auto simp: andThen_def split: option.splits)

subsection \<open>Projections\<close>

lemma plot_view_simps [simp]:
  "plot_view [] = []"
  "plot_view (e # t) = (if is_plot_event e then e # plot_view t else plot_view t)"
  "plot_view (t @ u) = plot_view t @ plot_view u"
  by (simp_all add: plot_view_def)

lemma broadcasts_simps [simp]:
  "broadcasts [] = []"
  "broadcasts (e # t) = bcast_of e @ broadcasts t"
  "broadcasts (t @ u) = broadcasts t @ broadcasts u"
  by (simp_all add: broadcasts_def)

lemma commands_simps [simp]:
  "commands [] = []"
  "commands (e # t) = cmd_of e @ commands t"
  "commands (t @ u) = commands t @ commands u"
  by (simp_all add: commands_def)

lemma broadcasts_plot_view [simp]: "broadcasts (plot_view t) = broadcasts t"
  by (induction t) (auto elim: is_plot_event.elims)

lemma commands_plot_view [simp]: "commands (plot_view t) = commands t"
  by (induction t) (auto elim: is_plot_event.elims)

lemma plot_view_deliveries [simp]: "plot_view (deliveries E m ws) = []"
  by (induction ws) simp_all

lemma plot_view_suspend [simp]: "plot_view (trace (suspend E p s)) = plot_view (trace s)"
  by (simp add: trace_suspend)

subsection \<open>The notification hub\<close>

lemma forEach_send:
  "forEach (\<lambda>w. try_catch (ws_send E w m) (\<lambda>e. do_emit (Warn e))) ws s =
     (None, s\<lparr>trace := trace s @ deliveries E m ws\<rparr>)"
  by (induction ws arbitrary: s)
     (simp_all add: andThen_def try_catch_def ws_send_def do_emit_def emit_def)

lemma broadcast_eq:
  "broadcast E m s = (None, s\<lparr>trace := trace s @ Broadcast m # deliveries E m (clients s)\<rparr>)"
  by (simp add: broadcast_def forEach_send emit_def)

lemma broadcast_fields [simp]:
  "fst (broadcast E m s) = None"
  "clients (snd (broadcast E m s)) = clients s"
  "ebb (snd (broadcast E m s)) = ebb s"
  "cancelRequested (snd (broadcast E m s)) = cancelRequested s"
  "plot_view (trace (snd (broadcast E m s))) = plot_view (trace s) @ [Broadcast m]"
  by (simp_all add: broadcast_eq)

lemma ebb_await_fields [simp]:
  "fst (ebb_await E c p s) = outcome E p"
  "clients (snd (ebb_await E c p s)) = clients s"
  "cancelRequested (snd (ebb_await E c p s)) = (cancelRequested s \<or> cancelArrives E p)"
  "plot_view (trace (snd (ebb_await E c p s))) = plot_view (trace s) @ [Device c]"
  by (simp_all add: ebb_await_def)

lemma sleep_await_fields [simp]:
  "fst (sleep_await E d p s) = None"
  "clients (snd (sleep_await E d p s)) = clients s"
  "cancelRequested (snd (sleep_await E d p s)) = (cancelRequested s \<or> cancelArrives E p)"
  "plot_view (trace (snd (sleep_await E d p s))) = plot_view (trace s) @ [Sleep d]"
  by (simp_all add: sleep_await_def)

subsection \<open>The loops\<close>

lemma hw_steps_0 [simp]: "hw_steps ms i 0 = []"
  by (simp add: hw_steps_def)

lemma hw_steps_Suc:
  "hw_steps (m # ms) i (Suc k) =
     [Broadcast (Progress i), Device (ExecuteMotion m)] @ hw_steps ms (Suc i) k"
  unfolding hw_steps_def
  by (simp add: upt_conv_Cons map_Suc_upt [symmetric] comp_def del: upt_Suc)

lemma sim_steps_0 [simp]: "sim_steps ms i 0 = []"
  by (simp add: sim_steps_def)

lemma sim_steps_Suc:
  "sim_steps (m # ms) i (Suc k) =
     [Broadcast (Progress i), Sleep (duration m * 1000)] @ sim_steps ms (Suc i) k"
  unfolding sim_steps_def
  by (simp add: upt_conv_Cons map_Suc_upt [symmetric] comp_def del: upt_Suc)


lemma block_one [simp]: "block [f] s = f s"
  by (simp add: andThen_def split: prod.splits option.splits)

lemma doPlot_loop_step:
  "doPlot_loop E (m # ms) i s =
     (let r = ebb_await E (ExecuteMotion m) (AwaitMotion i) (snd (broadcast E (Progress i) s))
      in if fst r = None \<and> \<not> cancelRequested (snd r) then doPlot_loop E ms (Suc i) (snd r)
         else r)"
proof (cases "outcome E (AwaitMotion i)")
  case None
  then show ?thesis
    by (simp add: andThen_def broadcast_eq ebb_await_def Let_def)
next
  case (Some e)
  then show ?thesis
    by (simp add: andThen_def broadcast_eq ebb_await_def Let_def)
qed

lemma simulatePlot_loop_step:
  "simulatePlot_loop E n (m # ms) i s =
     (let r = sleep_await E (duration m * 1000) (AwaitMotion i)
                (snd (broadcast E (Progress i) (emit (Log (MotionOf (i + 1) n)) s)))
      in if \<not> cancelRequested (snd r) then simulatePlot_loop E n ms (Suc i) (snd r)
         else r)"
  by (simp add: andThen_def broadcast_eq sleep_await_def do_emit_def Let_def)

declare doPlot_loop.simps(2) [simp del] simulatePlot_loop.simps(2) [simp del]

lemma doPlot_loop_run:
  assumes "\<forall>j. outcome E (AwaitMotion j) = None" and "\<not> cancelRequested s"
  shows "fst (doPlot_loop E ms i s) = None \<and>
         cancelRequested (snd (doPlot_loop E ms i s)) = stops E i (length ms) \<and>
         clients (snd (doPlot_loop E ms i s)) = clients s \<and>
         plot_view (trace (snd (doPlot_loop E ms i s))) =
           plot_view (trace s) @ hw_steps ms i (run_length E i (length ms))"
  using assms
proof (induction ms arbitrary: i s)
  case Nil
  then show ?case by simp
next
  case (Cons m ms)
  let ?r = "ebb_await E (ExecuteMotion m) (AwaitMotion i) (snd (broadcast E (Progress i) s))"
  show ?case
  proof (cases "cancelArrives E (AwaitMotion i)")
    case True
    then have "doPlot_loop E (m # ms) i s = ?r"
      by (simp add: doPlot_loop_step)
    then show ?thesis using True Cons.prems
      by (simp add: hw_steps_Suc)
  next
    case False
    then have step: "doPlot_loop E (m # ms) i s = doPlot_loop E ms (Suc i) (snd ?r)"
      using Cons.prems by (simp add: doPlot_loop_step)
    have nc: "\<not> cancelRequested (snd ?r)" using False Cons.prems by simp
    show ?thesis
      unfolding step using Cons.IH [OF Cons.prems(1) nc] False
      by (simp add: hw_steps_Suc)
  qed
qed

lemma simulatePlot_loop_run:
  assumes "\<not> cancelRequested s"
  shows "fst (simulatePlot_loop E n ms i s) = None \<and>
         cancelRequested (snd (simulatePlot_loop E n ms i s)) = stops E i (length ms) \<and>
         clients (snd (simulatePlot_loop E n ms i s)) = clients s \<and>
         plot_view (trace (snd (simulatePlot_loop E n ms i s))) =
           plot_view (trace s) @ sim_steps ms i (run_length E i (length ms))"
  using assms
proof (induction ms arbitrary: i s)
  case Nil
  then show ?case by simp
next
  case (Cons m ms)
  let ?r = "sleep_await E (duration m * 1000) (AwaitMotion i)
                (snd (broadcast E (Progress i) (emit (Log (MotionOf (i + 1) n)) s)))"
  show ?case
  proof (cases "cancelArrives E (AwaitMotion i)")
    case True
    then have "simulatePlot_loop E n (m # ms) i s = ?r"
      by (simp add: simulatePlot_loop_step)
    then show ?thesis using True Cons.prems
      by (simp add: sim_steps_Suc)
  next
    case False
    then have step: "simulatePlot_loop E n (m # ms) i s = simulatePlot_loop E n ms (Suc i) (snd ?r)"
      using Cons.prems by (simp add: simulatePlot_loop_step)
    have nc: "\<not> cancelRequested (snd ?r)" using False Cons.prems by simp
    show ?thesis
      unfolding step using Cons.IH [OF nc] False
      by (simp add: sim_steps_Suc)
  qed
qed


lemma find_upt_ge: "find P [i..<j] = Some c \<Longrightarrow> i \<le> c"
  by (auto simp: find_Some_iff)

lemma run_length_find:
  "run_length E i n =
     (case find (\<lambda>j. cancelArrives E (AwaitMotion j)) [i..<i + n] of
        None \<Rightarrow> n | Some c \<Rightarrow> Suc (c - i))"
proof (induction n arbitrary: i)
  case 0
  then show ?case by simp
next
  case (Suc n)
  have u: "[i..<i + Suc n] = i # [Suc i..<Suc i + n]"
    by (simp add: upt_conv_Cons del: upt_Suc)
  have ge: "Suc i \<le> c" if "find (\<lambda>j. cancelArrives E (AwaitMotion j)) [Suc i..<Suc i + n] = Some c"
    for c using that by (rule find_upt_ge)
  show ?case
    unfolding u using Suc.IH [of "Suc i"] ge
    by (auto simp del: upt_Suc split: option.splits)
qed

lemma stops_find:
  "stops E i n = (find (\<lambda>j. cancelArrives E (AwaitMotion j)) [i..<i + n] \<noteq> None)"
proof (induction n arbitrary: i)
  case 0
  then show ?case by simp
next
  case (Suc n)
  have u: "[i..<i + Suc n] = i # [Suc i..<Suc i + n]"
    by (simp add: upt_conv_Cons del: upt_Suc)
  show ?case
    unfolding u using Suc.IH [of "Suc i"] by (simp del: upt_Suc)
qed

lemma run_length_0: "run_length E 0 n = motionsRun E n"
  by (simp add: run_length_find motionsRun_def cancelledAt_def split: option.splits)

lemma stops_0: "stops E 0 n = (cancelledAt E n \<noteq> None)"
  by (simp add: stops_find cancelledAt_def)

lemma block_Cons_None: "fst (f s) = None \<Longrightarrow> block (f # fs) s = block fs (snd (f s))"
  by (cases "f s") (simp add: andThen_def)

lemma block_Cons_Some: "fst (f s) = Some e \<Longrightarrow> block (f # fs) s = f s"
  by (cases "f s") (simp add: andThen_def)

lemma set_cancelRequested_fields [simp]:
  "fst (set_cancelRequested b s) = None"
  "clients (snd (set_cancelRequested b s)) = clients s"
  "cancelRequested (snd (set_cancelRequested b s)) = b"
  "trace (snd (set_cancelRequested b s)) = trace s"
  by (simp_all add: set_cancelRequested_def)

lemma doPlot_run:
  assumes ok: "\<forall>p. outcome E p = None"
    and pen: "find isPenMotion (motions plan) = Some firstPenMotion"
  shows "fst (doPlot E plan s) = None"
    and "plot_view (trace (snd (doPlot E plan s))) =
           plot_view (trace s) @
           [Device (EnableMotors 2),
            Device (SetPenHeight (initialPos firstPenMotion) 1000 (Some 1000))] @
           hw_steps (motions plan) 0 (motionsRun E (length (motions plan))) @
           hw_finish E (length (motions plan)) @
           [Device WaitUntilMotorsIdle, Device DisableMotors]"
    and "cancelRequested (snd (doPlot E plan s)) =
           (cancelArrives E AwaitMotorsIdle \<or> cancelArrives E AwaitDisableMotors)"
    and "clients (snd (doPlot E plan s)) = clients s"
proof -
  let ?s1 = "snd (ebb_await E (EnableMotors 2) AwaitEnableMotors s)"
  let ?s2 = "snd (ebb_await E (SetPenHeight (initialPos firstPenMotion) 1000 (Some 1000))
                   AwaitInitialPen ?s1)"
  let ?s3 = "snd (set_cancelRequested False ?s2)"
  let ?r4 = "doPlot_loop E (motions plan) 0 ?s3"
  let ?n = "length (motions plan)"
  have okm: "\<forall>j. outcome E (AwaitMotion j) = None" using ok by simp
  have l: "fst ?r4 = None"
    "cancelRequested (snd ?r4) = (cancelledAt E ?n \<noteq> None)"
    "clients (snd ?r4) = clients s"
    "plot_view (trace (snd ?r4)) = plot_view (trace ?s3) @ hw_steps (motions plan) 0 (motionsRun E ?n)"
    using doPlot_loop_run [OF okm, of ?s3 "motions plan" 0]
    by (simp_all add: run_length_0 stops_0)
  have d: "doPlot E plan s =
    block [
       (\<lambda>s. if cancelRequested s then
               block [
                 ebb_await E (SetPenHeight (penPctToPos E 0) 1000 None) AwaitRaisePen,
                 broadcast E Cancelled,
                 set_cancelRequested False
               ] s
             else broadcast E Finished s),
       ebb_await E WaitUntilMotorsIdle AwaitMotorsIdle,
       ebb_await E DisableMotors AwaitDisableMotors
     ] (snd ?r4)"
    unfolding doPlot_def using ok pen l(1)
    by (simp add: block_Cons_None del: block.simps)
  show "fst (doPlot E plan s) = None"
    unfolding d using ok by (simp add: block_Cons_None del: block.simps(2))
  show "plot_view (trace (snd (doPlot E plan s))) =
           plot_view (trace s) @
           [Device (EnableMotors 2),
            Device (SetPenHeight (initialPos firstPenMotion) 1000 (Some 1000))] @
           hw_steps (motions plan) 0 (motionsRun E (length (motions plan))) @
           hw_finish E (length (motions plan)) @
           [Device WaitUntilMotorsIdle, Device DisableMotors]"
    unfolding d using ok l(2,4)
    by (simp add: block_Cons_None hw_finish_def del: block.simps(2))
  show "cancelRequested (snd (doPlot E plan s)) =
           (cancelArrives E AwaitMotorsIdle \<or> cancelArrives E AwaitDisableMotors)"
    unfolding d using ok l(2)
    by (simp add: block_Cons_None del: block.simps(2))
  show "clients (snd (doPlot E plan s)) = clients s"
    unfolding d using ok l(3)
    by (simp add: block_Cons_None del: block.simps(2))
qed

lemma simulatePlot_run:
  shows "fst (simulatePlot E plan s) = None"
    and "plot_view (trace (snd (simulatePlot E plan s))) =
           plot_view (trace s) @
           sim_steps (motions plan) 0 (motionsRun E (length (motions plan))) @
           sim_finish E (length (motions plan))"
    and "cancelRequested (snd (simulatePlot E plan s)) = False"
    and "clients (snd (simulatePlot E plan s)) = clients s"
proof -
  let ?s1 = "snd (set_cancelRequested False s)"
  let ?n = "length (motions plan)"
  let ?r2 = "simulatePlot_loop E ?n (motions plan) 0 ?s1"
  have l: "fst ?r2 = None"
    "cancelRequested (snd ?r2) = (cancelledAt E ?n \<noteq> None)"
    "clients (snd ?r2) = clients s"
    "plot_view (trace (snd ?r2)) = plot_view (trace s) @ sim_steps (motions plan) 0 (motionsRun E ?n)"
    using simulatePlot_loop_run [of ?s1 E ?n "motions plan" 0]
    by (simp_all add: run_length_0 stops_0)
  have d: "simulatePlot E plan s =
     block [(\<lambda>s. if cancelRequested s then
               block [broadcast E Cancelled, set_cancelRequested False] s
             else broadcast E Finished s)] (snd ?r2)"
    unfolding simulatePlot_def using l(1)
    by (simp add: block_Cons_None del: block.simps)
  show "fst (simulatePlot E plan s) = None"
    unfolding d by (simp add: block_Cons_None del: block.simps(2))
  show "plot_view (trace (snd (simulatePlot E plan s))) =
           plot_view (trace s) @
           sim_steps (motions plan) 0 (motionsRun E (length (motions plan))) @
           sim_finish E (length (motions plan))"
    unfolding d using l(2,4) by (simp add: block_Cons_None sim_finish_def del: block.simps(2))
  show "cancelRequested (snd (simulatePlot E plan s)) = False"
    unfolding d using l(2) by (simp add: block_Cons_None del: block.simps(2))
  show "clients (snd (simulatePlot E plan s)) = clients s"
    unfolding d using l(3) by (simp add: block_Cons_None del: block.simps(2))
qed


lemma extendsI: "(\<And>s. \<exists>t. trace (snd (f s)) = trace s @ t) \<Longrightarrow> extends f"
  unfolding extends_def prefix_def by blast

lemma extends_trace:
  assumes "extends f"
  shows "trace (snd (f s)) = trace s @ events f s"
proof -
  from assms obtain t where "trace (snd (f s)) = trace s @ t"
    unfolding extends_def prefix_def by blast
  then show ?thesis by (simp add: events_def)
qed

lemma extends_skip [simp]: "extends (Pair None)"
  by (rule extendsI) simp

lemma extends_do_emit [simp]: "extends (do_emit e)"
  by (rule extendsI) (simp add: do_emit_def)

lemma extends_throw [simp]: "extends (throw e)"
  by (rule extendsI) (simp add: throw_def)

lemma extends_set_cancelRequested [simp]: "extends (set_cancelRequested b)"
  by (rule extendsI) simp

lemma extends_ebb_await [simp]: "extends (ebb_await E c p)"
  by (rule extendsI) (simp add: ebb_await_def trace_suspend)

lemma extends_sleep_await [simp]: "extends (sleep_await E d p)"
  by (rule extendsI) (simp add: sleep_await_def trace_suspend)

lemma extends_ws_send [simp]: "extends (ws_send E w m)"
  by (rule extendsI) (simp add: ws_send_def)

lemma extends_broadcast [simp]: "extends (broadcast E m)"
  by (rule extendsI) (simp add: broadcast_eq)

lemma extends_andThen:
  assumes "extends f" and "extends g"
  shows "extends (andThen f g)"
proof (rule extendsI)
  fix s
  show "\<exists>t. trace (snd (andThen f g s)) = trace s @ t"
  proof (cases "fst (f s)")
    case None
    then have "andThen f g s = g (snd (f s))" by (simp add: andThen_cases)
    then show ?thesis
      using extends_trace [OF assms(1), of s] extends_trace [OF assms(2), of "snd (f s)"]
      by simp
  next
    case (Some e)
    then have "andThen f g s = f s" by (simp add: andThen_cases)
    then show ?thesis using extends_trace [OF assms(1), of s] by simp
  qed
qed

lemma extends_block: "(\<And>f. f \<in> set fs \<Longrightarrow> extends f) \<Longrightarrow> extends (block fs)"
proof (induction fs)
  case Nil
  show ?case by (rule extendsI) simp
next
  case (Cons f fs)
  have "extends (andThen f (block fs))"
    by (rule extends_andThen) (simp_all add: Cons)
  then show ?case by (simp add: extends_def)
qed

lemma extends_if:
  "extends f \<Longrightarrow> extends g \<Longrightarrow> extends (\<lambda>s. if c s then f s else g s)"
  by (simp add: extends_def)

lemma extends_doPlot_loop [simp]: "extends (doPlot_loop E ms i)"
proof (induction ms arbitrary: i)
  case Nil
  show ?case by (rule extendsI) simp
next
  case (Cons m ms)
  have "extends (\<lambda>s. if cancelRequested s then (None, s) else doPlot_loop E ms (i + 1) s)"
    by (rule extends_if) (simp_all add: Cons)
  then have "extends (block [
       broadcast E (Progress i),
       ebb_await E (ExecuteMotion m) (AwaitMotion i),
       (\<lambda>s. if cancelRequested s then (None, s) else doPlot_loop E ms (i + 1) s)])"
    by (intro extends_block) auto
  then show ?case by (simp add: extends_def doPlot_loop.simps(2))
qed

lemma extends_simulatePlot_loop [simp]: "extends (simulatePlot_loop E n ms i)"
proof (induction ms arbitrary: i)
  case Nil
  show ?case by (rule extendsI) simp
next
  case (Cons m ms)
  have "extends (\<lambda>s. if cancelRequested s then (None, s) else simulatePlot_loop E n ms (i + 1) s)"
    by (rule extends_if) (simp_all add: Cons)
  then have "extends (block [
       do_emit (Log (MotionOf (i + 1) n)),
       broadcast E (Progress i),
       sleep_await E (duration m * 1000) (AwaitMotion i),
       (\<lambda>s. if cancelRequested s then (None, s) else simulatePlot_loop E n ms (i + 1) s)])"
    by (intro extends_block) auto
  then show ?case by (simp add: extends_def simulatePlot_loop.simps(2))
qed

lemma extends_doPlot [simp]: "extends (doPlot E plan)"
proof -
  have a: "extends (\<lambda>s. case find isPenMotion (motions plan) of
               None \<Rightarrow> throw TypeError s
             | Some firstPenMotion \<Rightarrow>
                 ebb_await E (SetPenHeight (initialPos firstPenMotion) 1000 (Some 1000))
                   AwaitInitialPen s)"
    by (cases "find isPenMotion (motions plan)") simp_all
  have "extends (block [
                 ebb_await E (SetPenHeight (penPctToPos E 0) 1000 None) AwaitRaisePen,
                 broadcast E Cancelled,
                 set_cancelRequested False])"
    by (intro extends_block) auto
  then have b: "extends (\<lambda>s. if cancelRequested s then
               block [
                 ebb_await E (SetPenHeight (penPctToPos E 0) 1000 None) AwaitRaisePen,
                 broadcast E Cancelled,
                 set_cancelRequested False
               ] s
             else broadcast E Finished s)"
    by (intro extends_if) (simp_all del: block.simps)
  show ?thesis
    unfolding doPlot_def using a b by (intro extends_block) auto
qed

lemma extends_simulatePlot [simp]: "extends (simulatePlot E plan)"
proof -
  have "extends (block [broadcast E Cancelled, set_cancelRequested False])"
    by (intro extends_block) auto
  then have b: "extends (\<lambda>s. if cancelRequested s then
               block [broadcast E Cancelled, set_cancelRequested False] s
             else broadcast E Finished s)"
    by (intro extends_if) (simp_all del: block.simps)
  show ?thesis
    unfolding simulatePlot_def using b by (intro extends_block) auto
qed

lemma events_view:
  assumes "extends f" and "plot_view (trace (snd (f s))) = plot_view (trace s) @ v"
  shows "plot_view (events f s) = v"
  using assms(2) by (simp add: extends_trace [OF assms(1)])

lemma events_block_Cons:
  assumes "extends f" and "extends (block fs)"
  shows "events (block (f # fs)) s =
           events f s @ (if fst (f s) = None then events (block fs) (snd (f s)) else [])"
proof (cases "fst (f s)")
  case None
  then have "trace (snd (block (f # fs) s)) = trace s @ events f s @ events (block fs) (snd (f s))"
    by (simp add: block_Cons_None extends_trace [OF assms(2)] extends_trace [OF assms(1)]
        del: block.simps)
  then show ?thesis using None by (simp add: events_def)
next
  case (Some e)
  then show ?thesis by (simp add: block_Cons_Some events_def del: block.simps)
qed

lemma broadcasts_hw_steps [simp]: "broadcasts (hw_steps ms i k) = map Progress [i..<i + k]"
  by (induction k) (simp_all add: hw_steps_def)

lemma broadcasts_sim_steps [simp]: "broadcasts (sim_steps ms i k) = map Progress [i..<i + k]"
  by (induction k) (simp_all add: sim_steps_def)

lemma commands_hw_steps [simp]:
  "commands (hw_steps ms i k) = map (\<lambda>j. ExecuteMotion (ms ! j)) [0..<k]"
  by (induction k) (simp_all add: hw_steps_def)

lemma commands_sim_steps [simp]: "commands (sim_steps ms i k) = []"
  by (induction k) (simp_all add: sim_steps_def)


lemma step_view_simps [simp]:
  "step_view [] = []"
  "step_view (e # t) = (if is_step_event e then e # step_view t else step_view t)"
  "step_view (t @ u) = step_view t @ step_view u"
  by (simp_all add: step_view_def)

lemma step_view_plot_view [simp]: "step_view (plot_view t) = step_view t"
  by (induction t) (auto elim: is_plot_event.elims)

lemma step_view_hw_steps [simp]: "step_view (hw_steps ms i k) = hw_steps ms i k"
  by (induction k) (simp_all add: hw_steps_def)

lemma step_view_sim_steps [simp]: "step_view (sim_steps ms i k) = sim_steps ms i k"
  by (induction k) (simp_all add: sim_steps_def)

lemma step_view_finish [simp]: "step_view (hw_finish E n) = []" "step_view (sim_finish E n) = []"
  by (simp_all add: hw_finish_def sim_finish_def)

lemma doPlot_events:
  assumes "\<forall>p. outcome E p = None"
    and "find isPenMotion (motions plan) = Some firstPenMotion"
  shows "plot_view (events (doPlot E plan) s) =
           [Device (EnableMotors 2),
            Device (SetPenHeight (initialPos firstPenMotion) 1000 (Some 1000))] @
           hw_steps (motions plan) 0 (motionsRun E (length (motions plan))) @
           hw_finish E (length (motions plan)) @
           [Device WaitUntilMotorsIdle, Device DisableMotors]"
  by (rule events_view [OF extends_doPlot doPlot_run(2) [OF assms]])

lemma simulatePlot_events:
  "plot_view (events (simulatePlot E plan) s) =
           sim_steps (motions plan) 0 (motionsRun E (length (motions plan))) @
           sim_finish E (length (motions plan))"
  by (rule events_view [OF extends_simulatePlot simulatePlot_run(2)])

lemma broadcasts_events: "broadcasts (events f s) = broadcasts (plot_view (events f s))"
  by simp

lemma commands_events: "commands (events f s) = commands (plot_view (events f s))"
  by simp

lemma step_view_events: "step_view (events f s) = step_view (plot_view (events f s))"
  by simp

lemmas run_simps =
  doPlot_def simulatePlot_def doPlot_loop.simps simulatePlot_loop.simps andThen_def
  ebb_await_def sleep_await_def suspend_def post_cancel_def set_cancelRequested_def
  broadcast_def try_catch_def ws_send_def do_emit_def throw_def emit_def events_def
  quiet_def connected_def square_def cancel_during_def failing_at_def travel_def

lemma cancelledAt_cong:
  assumes "\<forall>i<n. cancelArrives E' (AwaitMotion i) = cancelArrives E (AwaitMotion i)"
  shows "cancelledAt E' n = cancelledAt E n"
  unfolding cancelledAt_def using assms by (intro find_cong) auto

lemma motionsRun_cong:
  assumes "\<forall>i<n. cancelArrives E' (AwaitMotion i) = cancelArrives E (AwaitMotion i)"
  shows "motionsRun E' n = motionsRun E n"
  unfolding motionsRun_def cancelledAt_cong [OF assms] ..

lemma cancelledAt_Some:
  assumes "c < n" and "cancelArrives E (AwaitMotion c)"
    and "\<forall>j<c. \<not> cancelArrives E (AwaitMotion j)"
  shows "cancelledAt E n = Some c"
  unfolding cancelledAt_def find_Some_iff
  using assms by (intro exI [of _ c]) simp

lemma sends_simps [simp]:
  "sends [] = []"
  "sends (e # t) = send_of e @ sends t"
  "sends (t @ u) = sends t @ sends u"
  by (simp_all add: sends_def)

lemma warnings_simps [simp]:
  "warnings [] = []"
  "warnings (e # t) = warn_of e @ warnings t"
  "warnings (t @ u) = warnings t @ warnings u"
  by (simp_all add: warnings_def)

lemma sends_deliveries: "sends (deliveries E m ws) = map (\<lambda>w. (w, m)) ws"
  by (induction ws) simp_all

lemma warnings_deliveries:
  "warnings (deliveries E m ws) = map TransportError (filter (sendFails E) ws)"
  by (induction ws) simp_all

lemma events_broadcast: "events (broadcast E m) s = Broadcast m # deliveries E m (clients s)"
  by (simp add: events_def broadcast_eq)

lemma trace_ebb_await:
  "trace (snd (ebb_await E c p s)) =
     trace s @ Device c # (if cancelArrives E p then [Respond 200] else [])"
  by (simp add: ebb_await_def trace_suspend)

lemma commands_drop_ebb_await [simp]:
  "commands (drop (length (trace s)) (trace (snd (ebb_await E c p s)))) = [c]"
  by (simp add: trace_ebb_await)

lemma extends_doPlot_tail:
  "extends (block [
       set_cancelRequested False,
       doPlot_loop E ms 0,
       (\<lambda>s. if cancelRequested s then
               block [
                 ebb_await E (SetPenHeight (penPctToPos E 0) 1000 None) AwaitRaisePen,
                 broadcast E Cancelled,
                 set_cancelRequested False
               ] s
             else broadcast E Finished s),
       ebb_await E WaitUntilMotorsIdle AwaitMotorsIdle,
       ebb_await E DisableMotors AwaitDisableMotors])"
proof -
  have "extends (block [
                 ebb_await E (SetPenHeight (penPctToPos E 0) 1000 None) AwaitRaisePen,
                 broadcast E Cancelled,
                 set_cancelRequested False])"
    by (intro extends_block) auto
  then have b: "extends (\<lambda>s. if cancelRequested s then
               block [
                 ebb_await E (SetPenHeight (penPctToPos E 0) 1000 None) AwaitRaisePen,
                 broadcast E Cancelled,
                 set_cancelRequested False
               ] s
             else broadcast E Finished s)"
    by (intro extends_if) (simp_all del: block.simps)
  show ?thesis using b by (intro extends_block) auto
qed

lemma extends_plot_run [simp]: "extends (plot_run E plan)"
proof -
  have "plot_run E plan = (\<lambda>s. if ebb s \<noteq> None then doPlot E plan s else simulatePlot E plan s)"
    by (rule ext) (simp add: plot_run_def)
  then show ?thesis by (simp add: extends_if)
qed

lemma post_plot_begin_fields:
  "fst (post_plot_begin E s) = (\<not> wakeLockFails E)"
  "trace (snd (post_plot_begin E s)) =
     trace s @
     [Log ReceivedPlan, Log (if ebb s \<noteq> None then BeginningPlot else SimulatingPlot),
      Respond 200, NewWakeLock] @
     (if wakeLockFails E then [Warn WakeLockError] else [])"
  "ebb (snd (post_plot_begin E s)) = ebb s"
  "clients (snd (post_plot_begin E s)) = clients s"
  "cancelRequested (snd (post_plot_begin E s)) = cancelRequested s"
  by (simp_all add: post_plot_begin_def acquire_wakeLock_def new_WakeLock_def Let_def)

lemma post_plot_eq:
  "post_plot E (Inr plan) s =
     try_finally
       (block [plot_run E plan, do_emit (Log PlotTook)])
       (\<lambda>s. if fst (post_plot_begin E s0) then do_emit ReleaseWakeLock s else (None, s))
       (snd (post_plot_begin E s))"
  if "s0 = s"
  using that by (simp add: post_plot_def split_beta del: block.simps)

lemma block_run_then_log:
  "block [f, do_emit e] s =
     (if fst (f s) = None then (None, emit e (snd (f s))) else f s)"
  by (cases "f s") (simp add: andThen_def do_emit_def split: option.splits)

lemma commands_deliveries [simp]: "commands (deliveries E m ws) = []"
  by (induction ws) simp_all

lemma doPlot_loop_commands:
  "\<exists>X. commands (trace (snd (doPlot_loop E ms i s))) = commands (trace s) @ X \<and>
       \<not> list_ex is_cleanup X"
proof (induction ms arbitrary: i s)
  case Nil
  then show ?case by simp
next
  case (Cons m ms)
  let ?r = "ebb_await E (ExecuteMotion m) (AwaitMotion i) (snd (broadcast E (Progress i) s))"
  have r: "commands (trace (snd ?r)) = commands (trace s) @ [ExecuteMotion m]"
    by (simp add: ebb_await_def trace_suspend broadcast_eq)
  show ?case
  proof (cases "fst ?r = None \<and> \<not> cancelRequested (snd ?r)")
    case True
    then have "doPlot_loop E (m # ms) i s = doPlot_loop E ms (Suc i) (snd ?r)"
      by (simp add: doPlot_loop_step)
    then show ?thesis using Cons [of "Suc i" "snd ?r"] r by auto
  next
    case False
    then have "doPlot_loop E (m # ms) i s = ?r"
      by (auto simp add: doPlot_loop_step)
    then show ?thesis using r by simp
  qed
qed

lemma doPlot_loop_result:
  "\<not> cancelRequested s \<Longrightarrow>
     (fst (doPlot_loop E ms i s) = None) =
       (\<forall>j < run_length E i (length ms). outcome E (AwaitMotion (i + j)) = None) \<and>
     (fst (doPlot_loop E ms i s) = None \<longrightarrow>
        cancelRequested (snd (doPlot_loop E ms i s)) = stops E i (length ms))"
proof (induction ms arbitrary: i s)
  case Nil
  then show ?case by simp
next
  case (Cons m ms)
  let ?r = "ebb_await E (ExecuteMotion m) (AwaitMotion i) (snd (broadcast E (Progress i) s))"
  have c: "cancelRequested (snd ?r) = cancelArrives E (AwaitMotion i)"
    using Cons.prems by simp
  show ?case
  proof (cases "outcome E (AwaitMotion i) = None \<and> \<not> cancelArrives E (AwaitMotion i)")
    case True
    then have "doPlot_loop E (m # ms) i s = doPlot_loop E ms (Suc i) (snd ?r)"
      using c by (simp add: doPlot_loop_step)
    moreover have "\<not> cancelRequested (snd ?r)" using c True by simp
    ultimately show ?thesis using Cons.IH [of "snd ?r" "Suc i"] True
      by (simp add: All_less_Suc2)
  next
    case False
    then have "doPlot_loop E (m # ms) i s = ?r"
      using c by (auto simp add: doPlot_loop_step)
    then show ?thesis using False c by (auto simp: All_less_Suc2)
  qed
qed


lemma events_commands:
  assumes "extends f" and "commands (trace (snd (f s))) = commands (trace s) @ y"
  shows "commands (events f s) = y"
  using assms(2) by (simp add: extends_trace [OF assms(1)])

lemma block_Cons_cases:
  "block (f # fs) s = (if fst (f s) = None then block fs (snd (f s)) else f s)"
  by (simp add: andThen_cases)

lemma commands_ebb_await [simp]:
  "commands (trace (snd (ebb_await E c p s))) = commands (trace s) @ [c]"
  by (simp add: trace_ebb_await)

lemma commands_broadcast [simp]:
  "commands (trace (snd (broadcast E m s))) = commands (trace s)"
  by (simp add: broadcast_eq)

lemma doPlot_finish_commands:
  "fst ((\<lambda>s. if cancelRequested s then
               block [
                 ebb_await E (SetPenHeight (penPctToPos E 0) 1000 None) AwaitRaisePen,
                 broadcast E Cancelled,
                 set_cancelRequested False
               ] s
             else broadcast E Finished s) s) =
     (if cancelRequested s then outcome E AwaitRaisePen else None)"
  "commands (trace (snd ((\<lambda>s. if cancelRequested s then
               block [
                 ebb_await E (SetPenHeight (penPctToPos E 0) 1000 None) AwaitRaisePen,
                 broadcast E Cancelled,
                 set_cancelRequested False
               ] s
             else broadcast E Finished s) s))) =
     commands (trace s) @
     (if cancelRequested s then [SetPenHeight (penPctToPos E 0) 1000 None] else [])"
  by (simp_all add: block_Cons_cases del: block.simps(2))

lemma doPlot_cleanup_commands:
  "commands (trace (snd (block [ebb_await E WaitUntilMotorsIdle AwaitMotorsIdle,
        ebb_await E DisableMotors AwaitDisableMotors] s))) =
     commands (trace s) @
     WaitUntilMotorsIdle # (if outcome E AwaitMotorsIdle = None then [DisableMotors] else [])"
  by (simp add: block_Cons_cases del: block.simps(2))


lemma loop_ok_iff:
  "(\<forall>j < run_length E 0 n. outcome E (AwaitMotion (0 + j)) = None) =
     list_all (\<lambda>j. outcome E (AwaitMotion j) = None) [0..<motionsRun E n]"
  by (auto simp: run_length_0 list_all_iff)

section \<open>Lemmas about the connection supervisor\<close>

lemma connect_body_eq:
  "connect_body E d s =
     (None, s\<lparr>ebb := d, trace := trace s @ Broadcast (Dev d) # deliveries E (Dev d) (clients s)\<rparr>)"
  by (simp add: connect_body_def andThen_def broadcast_eq)

lemma ebbs_session_eq:
  "ebbs_session E com F s =
     (case closes F of
        0 \<Rightarrow> (Waiting (ForClose com), F, snd (connect_body E (Some com) s))
      | Suc k \<Rightarrow> (AtEnd, F\<lparr>closes := k\<rparr>,
          emit (LogError LostConnection)
            (snd (connect_body E None (snd (connect_body E (Some com) s))))))"
  by (simp add: ebbs_session_def connect_body_eq split: nat.splits)

lemma waitForEbb_Pending: "waitForEbb ls s = (Pending, ls', s') \<Longrightarrow> ls' = []"
proof (induction ls s rule: waitForEbb.induct)
  case (1 s)
  then show ?case by simp
next
  case (2 e rest s)
  then show ?case by simp
next
  case (3 ebbs rest s)
  then show ?case by (cases ebbs) auto
qed

lemma discover_Pending: "discover path F s = (Pending, ls', s') \<Longrightarrow> ls' = []"
  by (auto simp: discover_def split: option.splits if_splits dest: waitForEbb_Pending)

lemma ebbs_try_ends:
  assumes "ebbs_try E path F s = (r, F', s')"
  shows "(\<forall>e. r \<noteq> ConsumerThrew e) \<and> (\<forall>p. r = Waiting p \<longrightarrow> unanswered p F' s')"
proof -
  obtain a ls s1 where d: "discover path F s = (a, ls, s1)"
    by (metis prod_cases3)
  show ?thesis
  proof (cases a)
    case Pending
    then have "ls = []" using d by (auto dest: discover_Pending)
    then show ?thesis using assms d Pending by (auto simp: ebbs_try_def)
  next
    case (Rejected e)
    then show ?thesis using assms d by (auto simp: ebbs_try_def)
  next
    case (Resolved com)
    show ?thesis
    proof (cases "opens F")
      case Nil
      then show ?thesis using assms d Resolved by (auto simp: ebbs_try_def)
    next
      case (Cons o1 os)
      then show ?thesis using assms d Resolved
        by (cases o1)
           (auto simp: ebbs_try_def ebbs_session_eq connect_body_eq Let_def emit_def
              split: nat.splits)
    qed
  qed
qed

lemma connect_goes_on: "goes_on (connect E path F s)"
proof (induction E path F s rule: connect.induct)
  case (1 E path F s)
  obtain r F' s' where t: "ebbs_try E path F s = (r, F', s')"
    by (metis prod_cases3)
  note ends = ebbs_try_ends [OF t]
  show ?case
  proof (cases r)
    case AtEnd
    then show ?thesis
      using t "1.IH"(1) [OF t [symmetric]]
      by (subst connect.simps) simp
  next
    case (Thrown e)
    then show ?thesis
      using t "1.IH"(2) [OF t [symmetric]]
      by (subst connect.simps) simp
  next
    case (Waiting p)
    then show ?thesis using t ends by (subst connect.simps) simp
  next
    case (ConsumerThrew e)
    then show ?thesis using ends by simp
  qed
qed

lemma waitForEbb_empties:
  "waitForEbb (replicate n (Inr []) @ rest) s =
     waitForEbb rest (s\<lparr>trace := trace s @ replicate n (Sleep 5000)\<rparr>)"
proof (induction n arbitrary: s)
  case 0
  then show ?case by simp
next
  case (Suc n)
  have "Sleep 5000 # replicate n (Sleep 5000) = replicate n (Sleep 5000) @ [Sleep 5000]"
    by (simp add: replicate_append_same)
  then show ?case using Suc [of "emit (Sleep 5000) s"]
    by (simp add: emit_def)
qed

lemma feed_after_one:
  "feed_after [r] F =
     \<lparr>lists = round_lists r @ lists F, opens = round_opens r @ opens F,
      closes = round_closes r + closes F\<rparr>"
  by (simp add: feed_after_def)

lemma connect_round:
  "connect E None (feed_after [r] F) s =
     connect E None F
       (s\<lparr>ebb := round_ebb r (ebb s), trace := trace s @ round_events E (clients s) r\<rparr>)"
proof (cases r)
  case (OpenFails n com e)
  have "ebbs_try E None (feed_after [r] F) s =
      (Thrown e, F, s\<lparr>trace := trace s @ replicate n (Sleep 5000) @ [Log (FoundEBB com)]\<rparr>)"
    by (simp add: OpenFails ebbs_try_def discover_def feed_after_one waitForEbb_empties emit_def)
  then show ?thesis
    by (subst connect.simps) (simp add: OpenFails ebbs_catch_def emit_def)
next
  case (ListFails n e)
  have "ebbs_try E None (feed_after [r] F) s =
      (Thrown e, F, s\<lparr>trace := trace s @ replicate n (Sleep 5000)\<rparr>)"
    by (simp add: ListFails ebbs_try_def discover_def feed_after_one waitForEbb_empties emit_def)
  then show ?thesis
    by (subst connect.simps) (simp add: ListFails ebbs_catch_def emit_def)
next
  case (Session n com others)
  have "ebbs_try E None (feed_after [r] F) s =
      (AtEnd, F,
       s\<lparr>ebb := None, trace := trace s @ round_events E (clients s) (Session n com others)\<rparr>)"
    by (simp add: Session ebbs_try_def discover_def feed_after_one waitForEbb_empties emit_def
        ebbs_session_eq connect_body_eq)
  then show ?thesis
    by (subst connect.simps) (simp add: Session)
qed

lemma feed_after_Cons: "feed_after (r # rs) F = feed_after [r] (feed_after rs F)"
  by (simp add: feed_after_def)

lemma feed_after_Nil: "feed_after [] F = F"
  by (simp add: feed_after_def)

lemma connect_rounds:
  "connect E None (feed_after rs F) s =
     connect E None F
       (s\<lparr>ebb := fold round_ebb rs (ebb s),
          trace := trace s @ concat (map (round_events E (clients s)) rs)\<rparr>)"
proof (induction rs arbitrary: s)
  case Nil
  then show ?case by (simp add: feed_after_Nil)
next
  case (Cons r rs)
  have "connect E None (feed_after (r # rs) F) s =
      connect E None (feed_after rs F)
        (s\<lparr>ebb := round_ebb r (ebb s), trace := trace s @ round_events E (clients s) r\<rparr>)"
    by (simp only: feed_after_Cons [of r rs F] connect_round)
  then show ?case by (simp add: Cons.IH)
qed

lemma connect_found:
  "connect E None (found n com others) s =
     (Awaits (ForClose com), silence,
      s\<lparr>ebb := Some com,
        trace := trace s @ replicate n (Sleep 5000) @
          [Log (FoundEBB com), Broadcast (Dev (Some com))] @
          deliveries E (Dev (Some com)) (clients s)\<rparr>)"
proof -
  have "ebbs_try E None (found n com others) s =
     (Waiting (ForClose com), silence,
      s\<lparr>ebb := Some com,
        trace := trace s @ replicate n (Sleep 5000) @
          [Log (FoundEBB com), Broadcast (Dev (Some com))] @
          deliveries E (Dev (Some com)) (clients s)\<rparr>)"
    by (simp add: ebbs_try_def discover_def found_def silence_def waitForEbb_empties emit_def
        ebbs_session_eq connect_body_eq)
  then show ?thesis
    by (subst connect.simps) simp
qed

lemma connect_silence: "connect E None silence s = (Awaits ForList, silence, s)"
  by (subst connect.simps) (simp add: ebbs_try_def discover_def silence_def)

section \<open>Claims about the plot execution engine\<close>

text \<open>
  C1 (as amended). Take a plan of \<open>N\<close> motions and an execution in which no device
  operation fails (on the hardware path the plan also holds a pen motion). Let \<open>k\<close> be
  \<open>N\<close> when no cancel request arrives during a motion, and \<open>c + 1\<close> when the first
  motion during which one arrives is motion \<open>c\<close>. Then \<^verbatim>\<open>doPlot\<close> and
  \<^verbatim>\<open>simulatePlot\<close> call \<^verbatim>\<open>broadcast\<close> with progress 0, ..., progress
  \<open>k - 1\<close> in this order and then with exactly one terminal message, \<open>Finished\<close> in
  the first case and \<open>Cancelled\<close> in the second; and the progress message of motion
  \<open>j\<close> immediately precedes the execution (the sleep) of motion \<open>j\<close>.
\<close>

theorem plot_progress_then_terminal:
  "((\<forall>p. outcome E p = None) \<and> find isPenMotion (motions plan) = Some firstPenMotion \<longrightarrow>
      broadcasts (events (doPlot E plan) s) =
        map Progress [0..<motionsRun E (length (motions plan))] @
        [if cancelledAt E (length (motions plan)) = None then Finished else Cancelled] \<and>
      step_view (events (doPlot E plan) s) =
        hw_steps (motions plan) 0 (motionsRun E (length (motions plan)))) \<and>
   broadcasts (events (simulatePlot E plan) s) =
     map Progress [0..<motionsRun E (length (motions plan))] @
     [if cancelledAt E (length (motions plan)) = None then Finished else Cancelled] \<and>
   step_view (events (simulatePlot E plan) s) =
     sim_steps (motions plan) 0 (motionsRun E (length (motions plan)))"
proof -
  have hw: "broadcasts (events (doPlot E plan) s) =
           map Progress [0..<motionsRun E (length (motions plan))] @
           [if cancelledAt E (length (motions plan)) = None then Finished else Cancelled] \<and>
         step_view (events (doPlot E plan) s) =
           hw_steps (motions plan) 0 (motionsRun E (length (motions plan)))"
    if ok: "\<forall>p. outcome E p = None"
      and pen: "find isPenMotion (motions plan) = Some firstPenMotion"
    unfolding broadcasts_events [of "doPlot E plan"] step_view_events [of "doPlot E plan"]
      doPlot_events [OF ok pen]
    by (simp add: hw_finish_def)
  have sim1: "broadcasts (events (simulatePlot E plan) s) =
           map Progress [0..<motionsRun E (length (motions plan))] @
           [if cancelledAt E (length (motions plan)) = None then Finished else Cancelled]"
    unfolding broadcasts_events [of "simulatePlot E plan"] simulatePlot_events
    by (simp add: sim_finish_def)
  have sim2: "step_view (events (simulatePlot E plan) s) =
           sim_steps (motions plan) 0 (motionsRun E (length (motions plan)))"
    unfolding step_view_events [of "simulatePlot E plan"] simulatePlot_events
    by simp
  show ?thesis using hw sim1 sim2 by blast
qed

theorem plot_progress_then_terminal_witness:
  "broadcasts (events (doPlot quiet square) connected) =
     [Progress 0, Progress 1, Progress 2, Progress 3, Finished] \<and>
   step_view (events (doPlot quiet square) connected) =
     [Broadcast (Progress 0), Device (ExecuteMotion (XYMotion 1)),
      Broadcast (Progress 1), Device (ExecuteMotion (PenMotion 28000 15000 (1/5))),
      Broadcast (Progress 2), Device (ExecuteMotion (XYMotion 2)),
      Broadcast (Progress 3), Device (ExecuteMotion (PenMotion 15000 28000 (1/5)))] \<and>
   broadcasts (events (simulatePlot (cancel_during 1) square) connected) =
     [Progress 0, Progress 1, Cancelled]"
proof -
  have h1: "\<forall>p. outcome quiet p = None" by (simp add: quiet_def)
  have h2: "find isPenMotion (motions square) = Some (PenMotion 28000 15000 (1/5))"
    by (simp add: square_def)
  have a: "cancelledAt quiet 4 = None" "motionsRun quiet 4 = 4"
    by (simp_all add: cancelledAt_def motionsRun_def quiet_def upt_rec)
  have b: "cancelledAt (cancel_during 1) 4 = Some 1" "motionsRun (cancel_during 1) 4 = 2"
    by (simp_all add: cancelledAt_def motionsRun_def quiet_def cancel_during_def upt_rec)
  have n: "length (motions square) = 4" by (simp add: square_def)
  show ?thesis
    using plot_progress_then_terminal
        [of quiet square "PenMotion 28000 15000 (1/5)" connected, unfolded n a] h1 h2
      plot_progress_then_terminal
        [of "cancel_during 1" square "PenMotion 28000 15000 (1/5)" connected, unfolded n b]
    by (simp add: upt_rec hw_steps_def square_def)
qed

theorem fewer_progress_events_counterexample:
  "length (motions square) = 4 \<and>
   broadcasts (events (simulatePlot (cancel_during 0) square) connected) =
     [Progress 0, Cancelled]"
  by (simp add: run_simps)

theorem no_terminal_event_counterexample:
  "broadcasts (events (doPlot (failing_at (AwaitMotion 1) quiet) square) connected) =
     [Progress 0, Progress 1] \<and>
   fst (doPlot (failing_at (AwaitMotion 1) quiet) square connected) =
     Some (DeviceError ''port closed'')"
  by (simp add: run_simps)

text \<open>
  C2 (as amended). In every run of \<^verbatim>\<open>doPlot\<close> on a plan that holds a pen motion,
  whatever the device does: \<^verbatim>\<open>waitUntilMotorsIdle\<close> is sent exactly when every
  device operation before it succeeded, and \<^verbatim>\<open>disableMotors\<close> is sent, right
  after it, exactly when \<^verbatim>\<open>waitUntilMotorsIdle\<close> succeeded too; no other
  command is a cleanup command. So when no device operation fails, the last two commands are
  \<^verbatim>\<open>waitUntilMotorsIdle\<close> and \<^verbatim>\<open>disableMotors\<close>, whether the plot
  ran to its end or was cancelled; and when an operation before the cleanup fails, the
  exception leaves \<^verbatim>\<open>doPlot\<close> (which has no \<^verbatim>\<open>try\<close>/\<^verbatim>\<open>finally\<close>)
  and neither command is sent. \<^verbatim>\<open>doPlot\<close> returns normally exactly when it reached
  the cleanup and both cleanup commands succeeded.
\<close>

theorem doPlot_cleanup_exactly_when_reached:
  assumes pen: "find isPenMotion (motions plan) = Some firstPenMotion"
  shows "(\<exists>pre. commands (events (doPlot E plan) s) =
                  pre @ cleanup_commands E (length (motions plan)) \<and>
                \<not> list_ex is_cleanup pre) \<and>
         (fst (doPlot E plan s) = None) =
           (reachesCleanup E (length (motions plan)) \<and>
            outcome E AwaitMotorsIdle = None \<and> outcome E AwaitDisableMotors = None) \<and>
         ((\<forall>p. outcome E p = None) \<longrightarrow>
            fst (doPlot E plan s) = None \<and>
            commands (events (doPlot E plan) s) =
              [EnableMotors 2, SetPenHeight (initialPos firstPenMotion) 1000 (Some 1000)] @
              map (\<lambda>j. ExecuteMotion (motions plan ! j))
                [0..<motionsRun E (length (motions plan))] @
              (if cancelledAt E (length (motions plan)) = None then []
               else [SetPenHeight (penPctToPos E 0) 1000 None]) @
              [WaitUntilMotorsIdle, DisableMotors])"
proof -
  let ?n = "length (motions plan)"
  let ?f1 = "ebb_await E (EnableMotors 2) AwaitEnableMotors"
  let ?f2 = "ebb_await E (SetPenHeight (initialPos firstPenMotion) 1000 (Some 1000))
               AwaitInitialPen"
  let ?finish = "\<lambda>s. if cancelRequested s then
               block [
                 ebb_await E (SetPenHeight (penPctToPos E 0) 1000 None) AwaitRaisePen,
                 broadcast E Cancelled,
                 set_cancelRequested False
               ] s
             else broadcast E Finished s"
  let ?idle = "ebb_await E WaitUntilMotorsIdle AwaitMotorsIdle"
  let ?disable = "ebb_await E DisableMotors AwaitDisableMotors"
  let ?s1 = "snd (?f1 s)"
  let ?s2 = "snd (?f2 ?s1)"
  let ?s3 = "snd (set_cancelRequested False ?s2)"
  let ?r4 = "doPlot_loop E (motions plan) 0 ?s3"
  let ?r5 = "?finish (snd ?r4)"
  obtain X where X: "commands (trace (snd ?r4)) = commands (trace ?s3) @ X"
    "\<not> list_ex is_cleanup X"
    using doPlot_loop_commands [of E "motions plan" 0 ?s3] by blast
  have c3: "commands (trace ?s3) =
      commands (trace s) @ [EnableMotors 2, SetPenHeight (initialPos firstPenMotion) 1000 (Some 1000)]"
    by simp
  have nc: "\<not> cancelRequested ?s3" by simp
  note loop = doPlot_loop_result [OF nc, of E "motions plan" 0, unfolded loop_ok_iff stops_0]
  have unfold: "doPlot E plan s =
      (if outcome E AwaitEnableMotors \<noteq> None then ?f1 s
       else if outcome E AwaitInitialPen \<noteq> None then ?f2 ?s1
       else if fst ?r4 \<noteq> None then ?r4
       else if fst ?r5 \<noteq> None then ?r5
       else block [?idle, ?disable] (snd ?r5))"
    unfolding doPlot_def using pen
    by (simp add: block_Cons_cases del: block.simps(2))
  have general: "\<exists>pre. commands (trace (snd (doPlot E plan s))) =
        commands (trace s) @ pre @ cleanup_commands E ?n \<and> \<not> list_ex is_cleanup pre"
  proof (cases "outcome E AwaitEnableMotors \<noteq> None")
    case True
    then show ?thesis unfolding unfold
      by (auto simp: cleanup_commands_def reachesCleanup_def intro!: exI [of _ "[EnableMotors 2]"])
  next
    case e1: False
    show ?thesis
    proof (cases "outcome E AwaitInitialPen \<noteq> None")
      case True
      then show ?thesis unfolding unfold using e1
        by (auto simp: cleanup_commands_def reachesCleanup_def
            intro!: exI [of _ "[EnableMotors 2,
              SetPenHeight (initialPos firstPenMotion) 1000 (Some 1000)]"])
    next
      case e2: False
      show ?thesis
      proof (cases "fst ?r4 \<noteq> None")
        case True
        then have "\<not> reachesCleanup E ?n" using loop by (simp add: reachesCleanup_def)
        then show ?thesis unfolding unfold using e1 e2 True X c3
          by (auto simp: cleanup_commands_def
              intro!: exI [of _ "[EnableMotors 2,
                SetPenHeight (initialPos firstPenMotion) 1000 (Some 1000)] @ X"])
      next
        case e4: False
        then have ok4: "fst ?r4 = None" by simp
        have flag: "cancelRequested (snd ?r4) = (cancelledAt E ?n \<noteq> None)"
          using loop ok4 by simp
        have all: "list_all (\<lambda>j. outcome E (AwaitMotion j) = None) [0..<motionsRun E ?n]"
          using loop ok4 by simp
        have f5: "fst ?r5 = (if cancelledAt E ?n \<noteq> None then outcome E AwaitRaisePen else None)"
          using doPlot_finish_commands(1) [where E = E and s = "snd ?r4"] flag by simp
        have c5: "commands (trace (snd ?r5)) = commands (trace (snd ?r4)) @
            (if cancelledAt E ?n \<noteq> None then [SetPenHeight (penPctToPos E 0) 1000 None] else [])"
          using doPlot_finish_commands(2) [where E = E and s = "snd ?r4"] flag by simp
        let ?pre = "[EnableMotors 2, SetPenHeight (initialPos firstPenMotion) 1000 (Some 1000)]
            @ X @ (if cancelledAt E ?n \<noteq> None
                   then [SetPenHeight (penPctToPos E 0) 1000 None] else [])"
        have pre: "\<not> list_ex is_cleanup ?pre" using X(2) by simp
        have c5': "commands (trace (snd ?r5)) = commands (trace s) @ ?pre"
          using c5 X(1) c3 by simp
        show ?thesis
        proof (cases "fst ?r5 \<noteq> None")
          case True
          then have "\<not> reachesCleanup E ?n" using f5
            by (auto simp: reachesCleanup_def split: if_splits)
          then have "commands (trace (snd (doPlot E plan s))) =
              commands (trace s) @ ?pre @ cleanup_commands E ?n"
            unfolding unfold using e1 e2 e4 True c5' by (simp add: cleanup_commands_def)
          then show ?thesis using pre by blast
        next
          case False
          then have "reachesCleanup E ?n" using f5 e1 e2 all
            by (auto simp: reachesCleanup_def split: if_splits)
          then have "commands (trace (snd (doPlot E plan s))) =
              commands (trace s) @ ?pre @ cleanup_commands E ?n"
            unfolding unfold using e1 e2 e4 False c5'
            by (simp add: cleanup_commands_def doPlot_cleanup_commands del: block.simps)
          then show ?thesis using pre by blast
        qed
      qed
    qed
  qed
  have result: "(fst (doPlot E plan s) = None) =
      (reachesCleanup E ?n \<and> outcome E AwaitMotorsIdle = None \<and>
       outcome E AwaitDisableMotors = None)"
  proof (cases "outcome E AwaitEnableMotors \<noteq> None")
    case True
    then show ?thesis unfolding unfold by (auto simp: reachesCleanup_def)
  next
    case e1: False
    show ?thesis
    proof (cases "outcome E AwaitInitialPen \<noteq> None")
      case True
      then show ?thesis unfolding unfold using e1 by (auto simp: reachesCleanup_def)
    next
      case e2: False
      show ?thesis
      proof (cases "fst ?r4 \<noteq> None")
        case True
        then have "\<not> reachesCleanup E ?n" using loop by (simp add: reachesCleanup_def)
        then show ?thesis unfolding unfold using e1 e2 True by simp
      next
        case e4: False
        then have ok4: "fst ?r4 = None" by simp
        have flag: "cancelRequested (snd ?r4) = (cancelledAt E ?n \<noteq> None)"
          using loop ok4 by simp
        have all: "list_all (\<lambda>j. outcome E (AwaitMotion j) = None) [0..<motionsRun E ?n]"
          using loop ok4 by simp
        have f5: "fst ?r5 = (if cancelledAt E ?n \<noteq> None then outcome E AwaitRaisePen else None)"
          using doPlot_finish_commands(1) [where E = E and s = "snd ?r4"] flag by simp
        show ?thesis
        proof (cases "fst ?r5 \<noteq> None")
          case True
          then have "\<not> reachesCleanup E ?n" using f5
            by (auto simp: reachesCleanup_def split: if_splits)
          then show ?thesis unfolding unfold using e1 e2 e4 True by simp
        next
          case False
          then have "reachesCleanup E ?n" using f5 e1 e2 all
            by (auto simp: reachesCleanup_def split: if_splits)
          moreover have "(fst (block [?idle, ?disable] (snd ?r5)) = None) =
              (outcome E AwaitMotorsIdle = None \<and> outcome E AwaitDisableMotors = None)"
            by (auto simp: block_Cons_cases simp del: block.simps(2))
          ultimately show ?thesis unfolding unfold using e1 e2 e4 False by simp
        qed
      qed
    qed
  qed
  from general obtain pre where pre: "commands (trace (snd (doPlot E plan s))) =
        commands (trace s) @ pre @ cleanup_commands E ?n" "\<not> list_ex is_cleanup pre"
    by blast
  have first: "\<exists>pre. commands (events (doPlot E plan) s) = pre @ cleanup_commands E ?n \<and>
      \<not> list_ex is_cleanup pre"
    using events_commands [OF extends_doPlot pre(1)] pre(2) by blast
  have second: "fst (doPlot E plan s) = None \<and>
            commands (events (doPlot E plan) s) =
              [EnableMotors 2, SetPenHeight (initialPos firstPenMotion) 1000 (Some 1000)] @
              map (\<lambda>j. ExecuteMotion (motions plan ! j))
                [0..<motionsRun E (length (motions plan))] @
              (if cancelledAt E (length (motions plan)) = None then []
               else [SetPenHeight (penPctToPos E 0) 1000 None]) @
              [WaitUntilMotorsIdle, DisableMotors]"
    if ok: "\<forall>p. outcome E p = None"
    unfolding commands_events [of "doPlot E plan"] doPlot_events [OF ok pen]
    using doPlot_run(1) [OF ok pen] by (simp add: hw_finish_def)
  show ?thesis using first result second by blast
qed

theorem doPlot_cleanup_exactly_when_reached_witness:
  "(\<exists>pre. commands (events (doPlot (failing_at AwaitDisableMotors quiet) square) connected) =
            pre @ [WaitUntilMotorsIdle, DisableMotors] \<and> \<not> list_ex is_cleanup pre) \<and>
   (\<exists>pre. commands (events (doPlot (failing_at AwaitMotorsIdle quiet) square) connected) =
            pre @ [WaitUntilMotorsIdle] \<and> \<not> list_ex is_cleanup pre) \<and>
   \<not> list_ex is_cleanup
       (commands (events (doPlot (failing_at (AwaitMotion 1) quiet) square) connected)) \<and>
   fst (doPlot (failing_at (AwaitMotion 1) quiet) square connected) \<noteq> None \<and>
   fst (doPlot (failing_at AwaitDisableMotors quiet) square connected) \<noteq> None \<and>
   fst (doPlot (cancel_during 1) square connected) = None \<and>
   commands (events (doPlot (cancel_during 1) square) connected) =
     [EnableMotors 2, SetPenHeight 28000 1000 (Some 1000),
      ExecuteMotion (XYMotion 1), ExecuteMotion (PenMotion 28000 15000 (1/5)),
      SetPenHeight 28000 1000 None, WaitUntilMotorsIdle, DisableMotors]"
proof -
  have h1: "\<forall>p. outcome (cancel_during 1) p = None" by (simp add: quiet_def cancel_during_def)
  have h2: "find isPenMotion (motions square) = Some (PenMotion 28000 15000 (1/5))"
    by (simp add: square_def)
  have n: "length (motions square) = 4" by (simp add: square_def)
  have k: "motionsRun (failing_at AwaitDisableMotors quiet) 4 = 4"
    "motionsRun (failing_at AwaitMotorsIdle quiet) 4 = 4"
    "motionsRun (failing_at (AwaitMotion 1) quiet) 4 = 4"
    "cancelledAt (failing_at AwaitDisableMotors quiet) 4 = None"
    "cancelledAt (failing_at AwaitMotorsIdle quiet) 4 = None"
    "cancelledAt (failing_at (AwaitMotion 1) quiet) 4 = None"
    by (simp_all add: cancelledAt_def motionsRun_def quiet_def failing_at_def upt_rec)
  have c: "cleanup_commands (failing_at AwaitDisableMotors quiet) 4 =
      [WaitUntilMotorsIdle, DisableMotors]"
    "cleanup_commands (failing_at AwaitMotorsIdle quiet) 4 = [WaitUntilMotorsIdle]"
    "cleanup_commands (failing_at (AwaitMotion 1) quiet) 4 = []"
    unfolding cleanup_commands_def reachesCleanup_def k
    by (simp_all add: failing_at_def quiet_def upt_rec)
  have r: "\<not> reachesCleanup (failing_at (AwaitMotion 1) quiet) 4"
    "outcome (failing_at AwaitDisableMotors quiet) AwaitDisableMotors \<noteq> None"
    unfolding reachesCleanup_def k by (simp_all add: failing_at_def quiet_def upt_rec)
  have b: "cancelledAt (cancel_during 1) 4 = Some 1" "motionsRun (cancel_during 1) 4 = 2"
    by (simp_all add: cancelledAt_def motionsRun_def quiet_def cancel_during_def upt_rec)
  have p: "penPctToPos (cancel_during 1) 0 = 28000" by (simp add: quiet_def cancel_during_def)
  show ?thesis
    using doPlot_cleanup_exactly_when_reached
        [OF h2, of "failing_at AwaitDisableMotors quiet" connected, unfolded n c]
      doPlot_cleanup_exactly_when_reached
        [OF h2, of "failing_at AwaitMotorsIdle quiet" connected, unfolded n c]
      doPlot_cleanup_exactly_when_reached
        [OF h2, of "failing_at (AwaitMotion 1) quiet" connected, unfolded n c]
      doPlot_cleanup_exactly_when_reached
        [OF h2, of "cancel_during 1" connected, unfolded n b p] h1 r
    by (auto simp: upt_rec square_def)
qed

theorem cleanup_skipped_counterexample:
  "fst (doPlot (failing_at (AwaitMotion 1) quiet) square connected) =
     Some (DeviceError ''port closed'') \<and>
   commands (events (doPlot (failing_at (AwaitMotion 1) quiet) square) connected) =
     [EnableMotors 2, SetPenHeight 28000 1000 (Some 1000),
      ExecuteMotion (XYMotion 1), ExecuteMotion (PenMotion 28000 15000 (1/5))]"
  by (simp add: run_simps)

text \<open>
  C3 (as amended). Let no device operation fail, let the plan hold a pen motion, and let the
  first cancel request that arrives during a motion arrive during motion \<open>c\<close>. Then
  motion \<open>c\<close> is the last motion executed (motions 0 to \<open>c\<close> are, each after its
  progress message, and nothing of motion \<open>c + 1\<close> appears); the hardware path then
  raises the pen to \<^verbatim>\<open>penPctToPos(0)\<close> at rate 1000 and broadcasts \<open>Cancelled\<close>,
  the simulation broadcasts \<open>Cancelled\<close>; and the flag is cleared: after
  \<^verbatim>\<open>simulatePlot\<close> it is false, after \<^verbatim>\<open>doPlot\<close> it is true only if a new
  request arrived during the two cleanup commands.
\<close>

theorem cancel_during_motion:
  assumes "c < length (motions plan)"
    and "cancelArrives E (AwaitMotion c)"
    and "\<forall>j<c. \<not> cancelArrives E (AwaitMotion j)"
  shows "((\<forall>p. outcome E p = None) \<and> find isPenMotion (motions plan) = Some firstPenMotion \<longrightarrow>
            plot_view (events (doPlot E plan) s) =
              [Device (EnableMotors 2),
               Device (SetPenHeight (initialPos firstPenMotion) 1000 (Some 1000))] @
              hw_steps (motions plan) 0 (Suc c) @
              [Device (SetPenHeight (penPctToPos E 0) 1000 None), Broadcast Cancelled,
               Device WaitUntilMotorsIdle, Device DisableMotors] \<and>
            cancelRequested (snd (doPlot E plan s)) =
              (cancelArrives E AwaitMotorsIdle \<or> cancelArrives E AwaitDisableMotors)) \<and>
         plot_view (events (simulatePlot E plan) s) =
           sim_steps (motions plan) 0 (Suc c) @ [Broadcast Cancelled] \<and>
         \<not> cancelRequested (snd (simulatePlot E plan s))"
proof -
  have c: "cancelledAt E (length (motions plan)) = Some c"
    by (rule cancelledAt_Some [OF assms])
  then have k: "motionsRun E (length (motions plan)) = Suc c"
    by (simp add: motionsRun_def)
  have hw: "plot_view (events (doPlot E plan) s) =
              [Device (EnableMotors 2),
               Device (SetPenHeight (initialPos firstPenMotion) 1000 (Some 1000))] @
              hw_steps (motions plan) 0 (Suc c) @
              [Device (SetPenHeight (penPctToPos E 0) 1000 None), Broadcast Cancelled,
               Device WaitUntilMotorsIdle, Device DisableMotors] \<and>
            cancelRequested (snd (doPlot E plan s)) =
              (cancelArrives E AwaitMotorsIdle \<or> cancelArrives E AwaitDisableMotors)"
    if ok: "\<forall>p. outcome E p = None"
      and pen: "find isPenMotion (motions plan) = Some firstPenMotion"
    using doPlot_events [OF ok pen, of s] doPlot_run(3) [OF ok pen, of s]
    by (simp add: c k hw_finish_def)
  have sim: "plot_view (events (simulatePlot E plan) s) =
           sim_steps (motions plan) 0 (Suc c) @ [Broadcast Cancelled] \<and>
         \<not> cancelRequested (snd (simulatePlot E plan s))"
    using simulatePlot_events [of E plan s] simulatePlot_run(3) [of E plan s]
    by (simp add: c k sim_finish_def)
  show ?thesis using hw sim by blast
qed

theorem cancel_during_motion_witness:
  "plot_view (events (doPlot (cancel_during 1) square) connected) =
     [Device (EnableMotors 2), Device (SetPenHeight 28000 1000 (Some 1000)),
      Broadcast (Progress 0), Device (ExecuteMotion (XYMotion 1)),
      Broadcast (Progress 1), Device (ExecuteMotion (PenMotion 28000 15000 (1/5))),
      Device (SetPenHeight 28000 1000 None), Broadcast Cancelled,
      Device WaitUntilMotorsIdle, Device DisableMotors] \<and>
   \<not> cancelRequested (snd (doPlot (cancel_during 1) square connected)) \<and>
   plot_view (events (simulatePlot (cancel_during 1) square) connected) =
     [Broadcast (Progress 0), Sleep 1000, Broadcast (Progress 1), Sleep 200,
      Broadcast Cancelled] \<and>
   \<not> cancelRequested (snd (simulatePlot (cancel_during 1) square connected))"
proof -
  have h1: "\<forall>p. outcome (cancel_during 1) p = None" by (simp add: quiet_def cancel_during_def)
  have h2: "find isPenMotion (motions square) = Some (PenMotion 28000 15000 (1/5))"
    by (simp add: square_def)
  have h3: "1 < length (motions square)" by (simp add: square_def)
  have h4: "cancelArrives (cancel_during 1) (AwaitMotion 1)"
    by (simp add: quiet_def cancel_during_def)
  have h5: "\<forall>j<1. \<not> cancelArrives (cancel_during 1) (AwaitMotion j)"
    by (simp add: quiet_def cancel_during_def)
  have p: "penPctToPos (cancel_during 1) 0 = 28000"
    "cancelArrives (cancel_during 1) AwaitMotorsIdle = False"
    "cancelArrives (cancel_during 1) AwaitDisableMotors = False"
    by (simp_all add: quiet_def cancel_during_def)
  show ?thesis
    using cancel_during_motion
        [OF h3 h4 h5, of "PenMotion 28000 15000 (1/5)" connected, unfolded p] h1 h2
    by (simp add: hw_steps_def sim_steps_def square_def upt_rec)
qed

theorem pen_raise_fails_counterexample:
  "cancelArrives (failing_at AwaitRaisePen (cancel_during 0)) (AwaitMotion 0) \<and>
   broadcasts (events (doPlot (failing_at AwaitRaisePen (cancel_during 0)) square) connected) =
     [Progress 0] \<and>
   cancelRequested (snd (doPlot (failing_at AwaitRaisePen (cancel_during 0)) square connected))"
  by (simp add: run_simps)

text \<open>
  C4 (as amended). Take a plan that holds a pen motion, a run of \<^verbatim>\<open>doPlot\<close> in which
  no device operation fails, and a run of \<^verbatim>\<open>simulatePlot\<close> in which a cancel request
  arrives during the timer of motion \<open>i\<close> exactly when one arrives during the execution of
  motion \<open>i\<close> in the run of \<^verbatim>\<open>doPlot\<close>, for every motion of the plan. Whatever
  requests arrive during the other awaits of \<^verbatim>\<open>doPlot\<close> (one that arrives during
  \<^verbatim>\<open>enableMotors\<close> or the first \<^verbatim>\<open>setPenHeight\<close> is dropped by the
  \<^verbatim>\<open>cancelRequested = false\<close> that follows them; the awaits after the loop come after
  the last broadcast), \<^verbatim>\<open>simulatePlot\<close> calls \<^verbatim>\<open>broadcast\<close> with the same
  sequence of messages as \<^verbatim>\<open>doPlot\<close>. For every plan and every pattern of requests,
  \<^verbatim>\<open>simulatePlot\<close> sends no command to the device, and it executes motion \<open>j\<close> by a
  timer of \<^verbatim>\<open>motion.duration() * 1000\<close> milliseconds.
\<close>

theorem simulatePlot_matches_doPlot:
  "((\<forall>p. outcome E p = None) \<and> find isPenMotion (motions plan) = Some firstPenMotion \<and>
    (\<forall>i<length (motions plan).
        cancelArrives E' (AwaitMotion i) = cancelArrives E (AwaitMotion i)) \<longrightarrow>
      broadcasts (events (simulatePlot E' plan) s) = broadcasts (events (doPlot E plan) s')) \<and>
   commands (events (simulatePlot E' plan) s) = [] \<and>
   step_view (events (simulatePlot E' plan) s) =
     sim_steps (motions plan) 0 (motionsRun E' (length (motions plan)))"
proof -
  have b: "broadcasts (events (simulatePlot E' plan) s) =
      map Progress [0..<motionsRun E' (length (motions plan))] @
      broadcasts (sim_finish E' (length (motions plan)))"
    unfolding broadcasts_events [of "simulatePlot E' plan"] simulatePlot_events
    by simp
  have a: "broadcasts (events (simulatePlot E' plan) s) = broadcasts (events (doPlot E plan) s')"
    if ok: "\<forall>p. outcome E p = None"
      and pen: "find isPenMotion (motions plan) = Some firstPenMotion"
      and same: "\<forall>i<length (motions plan).
        cancelArrives E' (AwaitMotion i) = cancelArrives E (AwaitMotion i)"
    unfolding b broadcasts_events [of "doPlot E plan"] doPlot_events [OF ok pen]
      motionsRun_cong [OF same]
    by (simp add: hw_finish_def sim_finish_def cancelledAt_cong [OF same])
  have c: "commands (events (simulatePlot E' plan) s) = []"
    unfolding commands_events [of "simulatePlot E' plan"] simulatePlot_events
    by (simp add: sim_finish_def)
  have d: "step_view (events (simulatePlot E' plan) s) =
           sim_steps (motions plan) 0 (motionsRun E' (length (motions plan)))"
    unfolding step_view_events [of "simulatePlot E' plan"] simulatePlot_events
    by simp
  show ?thesis using a c d by blast
qed

theorem simulatePlot_matches_doPlot_witness:
  "broadcasts (events (simulatePlot (cancel_during 2) square) connected) =
     broadcasts (events (doPlot (cancel_also AwaitEnableMotors
       (cancel_also AwaitMotorsIdle (cancel_during 2))) square) connected) \<and>
   broadcasts (events (simulatePlot (cancel_during 2) square) connected) =
     [Progress 0, Progress 1, Progress 2, Cancelled] \<and>
   commands (events (simulatePlot (cancel_during 2) square) connected) = [] \<and>
   step_view (events (simulatePlot (cancel_during 2) square) connected) =
     [Broadcast (Progress 0), Sleep 1000, Broadcast (Progress 1), Sleep 200,
      Broadcast (Progress 2), Sleep 2000]"
proof -
  let ?E = "cancel_also AwaitEnableMotors (cancel_also AwaitMotorsIdle (cancel_during 2))"
  have h1: "\<forall>p. outcome ?E p = None"
    by (simp add: quiet_def cancel_during_def cancel_also_def)
  have h2: "find isPenMotion (motions square) = Some (PenMotion 28000 15000 (1/5))"
    by (simp add: square_def)
  have h3: "\<forall>i<4. cancelArrives (cancel_during 2) (AwaitMotion i) =
      cancelArrives ?E (AwaitMotion i)"
    by (simp add: quiet_def cancel_during_def cancel_also_def)
  have b: "motionsRun (cancel_during 2) 4 = 3"
    by (simp add: cancelledAt_def motionsRun_def quiet_def cancel_during_def upt_rec)
  have n: "length (motions square) = 4" by (simp add: square_def)
  have v: "broadcasts (events (simulatePlot (cancel_during 2) square) connected) =
     [Progress 0, Progress 1, Progress 2, Cancelled]"
    by (simp add: run_simps)
  show ?thesis
    using simulatePlot_matches_doPlot
        [of ?E square "PenMotion 28000 15000 (1/5)" "cancel_during 2" connected connected,
         unfolded n b] h1 h2 h3 v
    by (simp add: sim_steps_def square_def upt_rec)
qed

text \<open>
  Without these hypotheses the two paths differ. One request sent right after the plot
  request is dropped by \<^verbatim>\<open>doPlot\<close>, which plots to the end, and honoured by
  \<^verbatim>\<open>simulatePlot\<close>, which stops after motion 0. And when the device fails during
  motion 2, \<^verbatim>\<open>doPlot\<close> ends without the messages that \<^verbatim>\<open>simulatePlot\<close>
  goes on to broadcast.
\<close>

theorem late_reset_counterexample:
  "broadcasts (events (doPlot (cancel_at_start True) square) connected) =
     [Progress 0, Progress 1, Progress 2, Progress 3, Finished] \<and>
   broadcasts (events (simulatePlot (cancel_at_start False) square) connected) =
     [Progress 0, Cancelled] \<and>
   fst (doPlot (cancel_at_start True) square connected) = None \<and>
   broadcasts (events (doPlot (failing_at (AwaitMotion 2) quiet) square) connected) =
     [Progress 0, Progress 1, Progress 2] \<and>
   broadcasts (events (simulatePlot (failing_at (AwaitMotion 2) quiet) square) connected) =
     [Progress 0, Progress 1, Progress 2, Progress 3, Finished]"
  by (simp add: run_simps cancel_at_start_def first_await_def)

text \<open>
  A plan without a pen motion is left out of the statement above. For such a plan
  \<^verbatim>\<open>plan.motions.find(...)\<close> is \<^verbatim>\<open>undefined\<close>, reading
  \<^verbatim>\<open>firstPenMotion.initialPos\<close> throws a \<^verbatim>\<open>TypeError\<close> after
  \<^verbatim>\<open>enableMotors\<close>, and \<^verbatim>\<open>doPlot\<close> broadcasts nothing, while
  \<^verbatim>\<open>simulatePlot\<close> plots the plan.
\<close>

theorem doPlot_without_pen_motion:
  "broadcasts (events (simulatePlot quiet travel) connected) = [Progress 0, Finished] \<and>
   broadcasts (events (doPlot quiet travel) connected) = [] \<and>
   commands (events (doPlot quiet travel) connected) = [EnableMotors 2] \<and>
   fst (doPlot quiet travel connected) = Some TypeError"
  by (simp add: run_simps)

text \<open>
  C7. In every run of \<^verbatim>\<open>doPlot\<close>, whatever the device does, the first command sent
  is \<^verbatim>\<open>enableMotors(2)\<close>. A second command is sent only when that one succeeded and
  the plan holds a pen motion, and it is \<^verbatim>\<open>setPenHeight\<close> with the initial position
  of the first pen motion of the plan, rate 1000 and delay 1000. Every later command, so
  every execution of a motion, is sent only after this \<^verbatim>\<open>setPenHeight\<close> has
  succeeded, wherever the pen motions stand in the plan.
\<close>

theorem doPlot_sets_pen_first:
  "\<exists>rest. commands (events (doPlot E plan) s) =
     EnableMotors 2 #
       (if outcome E AwaitEnableMotors = None then
          (case find isPenMotion (motions plan) of
             None \<Rightarrow> []
           | Some firstPenMotion \<Rightarrow>
               SetPenHeight (initialPos firstPenMotion) 1000 (Some 1000) #
                 (if outcome E AwaitInitialPen = None then rest else []))
        else [])"
proof (cases "outcome E AwaitEnableMotors")
  case (Some e)
  then have "doPlot E plan s = ebb_await E (EnableMotors 2) AwaitEnableMotors s"
    unfolding doPlot_def by (simp add: block_Cons_Some del: block.simps)
  then show ?thesis using Some by (simp add: events_def)
next
  case None
  let ?s1 = "snd (ebb_await E (EnableMotors 2) AwaitEnableMotors s)"
  show ?thesis
  proof (cases "find isPenMotion (motions plan)")
    case nopen: None
    have "doPlot E plan s = throw TypeError ?s1"
      unfolding doPlot_def using None nopen
      by (simp add: block_Cons_None block_Cons_Some throw_def del: block.simps)
    then show ?thesis using None nopen by (simp add: events_def throw_def)
  next
    case (Some firstPenMotion)
    note pen = this
    let ?f2 = "ebb_await E (SetPenHeight (initialPos firstPenMotion) 1000 (Some 1000))
                 AwaitInitialPen"
    let ?s2 = "snd (?f2 ?s1)"
    have t2: "trace ?s2 = trace s @
        Device (EnableMotors 2) # (if cancelArrives E AwaitEnableMotors then [Respond 200] else [])
        @ Device (SetPenHeight (initialPos firstPenMotion) 1000 (Some 1000)) #
          (if cancelArrives E AwaitInitialPen then [Respond 200] else [])"
      by (simp add: trace_ebb_await)
    show ?thesis
    proof (cases "outcome E AwaitInitialPen")
      case fail: (Some e)
      have "doPlot E plan s = ?f2 ?s1"
        unfolding doPlot_def using None pen fail
        by (simp add: block_Cons_None block_Cons_Some del: block.simps)
      then show ?thesis using None pen fail t2 by (simp add: events_def)
    next
      case ok: None
      let ?tail = "block [
         set_cancelRequested False,
         doPlot_loop E (motions plan) 0,
         (\<lambda>s. if cancelRequested s then
               block [
                 ebb_await E (SetPenHeight (penPctToPos E 0) 1000 None) AwaitRaisePen,
                 broadcast E Cancelled,
                 set_cancelRequested False
               ] s
             else broadcast E Finished s),
         ebb_await E WaitUntilMotorsIdle AwaitMotorsIdle,
         ebb_await E DisableMotors AwaitDisableMotors]"
      have "doPlot E plan s = ?tail ?s2"
        unfolding doPlot_def using None pen ok
        by (simp add: block_Cons_None del: block.simps)
      then have "trace (snd (doPlot E plan s)) = trace ?s2 @ events ?tail ?s2"
        using extends_trace [OF extends_doPlot_tail, of E "motions plan" ?s2] by simp
      then have "commands (events (doPlot E plan) s) =
          EnableMotors 2 # SetPenHeight (initialPos firstPenMotion) 1000 (Some 1000) #
            commands (events ?tail ?s2)"
        unfolding events_def [of "doPlot E plan"] t2 by simp
      then show ?thesis using None pen ok by simp
    qed
  qed
qed

theorem doPlot_sets_pen_first_witness:
  "\<exists>rest. commands (events (doPlot quiet square) connected) =
     EnableMotors 2 # SetPenHeight 28000 1000 (Some 1000) # rest"
  using doPlot_sets_pen_first [of quiet square connected]
  by (simp add: quiet_def square_def)

section \<open>Claims about the notification hub\<close>

text \<open>
  C6. \<^verbatim>\<open>broadcast\<close> never throws; it calls \<^verbatim>\<open>send\<close> once on every
  registered client, in the order of \<^verbatim>\<open>clients\<close>, whichever of these calls throw; every
  exception thrown by a \<^verbatim>\<open>send\<close> is passed to \<^verbatim>\<open>console.warn\<close>; and the
  server state is otherwise unchanged.
\<close>

theorem broadcast_isolates_failures:
  "fst (broadcast E m s) = None \<and>
   sends (events (broadcast E m) s) = map (\<lambda>w. (w, m)) (clients s) \<and>
   warnings (events (broadcast E m) s) = map TransportError (filter (sendFails E) (clients s)) \<and>
   clients (snd (broadcast E m s)) = clients s \<and>
   cancelRequested (snd (broadcast E m s)) = cancelRequested s \<and>
   ebb (snd (broadcast E m s)) = ebb s"
  by (simp add: events_broadcast sends_deliveries warnings_deliveries)

theorem broadcast_isolates_failures_witness:
  "fst (broadcast (quiet\<lparr>sendFails := (\<lambda>w. w = 1)\<rparr>) Finished connected) = None \<and>
   events (broadcast (quiet\<lparr>sendFails := (\<lambda>w. w = 1)\<rparr>) Finished) connected =
     [Broadcast Finished, WsSend 1 Finished, Warn (TransportError 1), WsSend 2 Finished] \<and>
   sends (events (broadcast (quiet\<lparr>sendFails := (\<lambda>w. w = 1)\<rparr>) Finished) connected) =
     [(1, Finished), (2, Finished)]"
  using broadcast_isolates_failures [of "quiet\<lparr>sendFails := (\<lambda>w. w = 1)\<rparr>" Finished connected]
  by (simp add: run_simps)

text \<open>
  C8. The handler of a new connection calls \<^verbatim>\<open>send\<close> exactly once, on the new
  socket, with the \<open>Dev\<close> message that carries the current value of \<^verbatim>\<open>ebb\<close> (the
  path of the port, or null when no device is connected); it needs no transition of the
  connection for this. The socket is appended to \<^verbatim>\<open>clients\<close>. The handler throws
  only if this \<^verbatim>\<open>send\<close> throws.
\<close>

theorem new_observer_gets_device_state:
  "events (on_connection E w) s = [WsSend w (Dev (ebb s))] \<and>
   clients (snd (on_connection E w s)) = clients s @ [w] \<and>
   ebb (snd (on_connection E w s)) = ebb s \<and>
   fst (on_connection E w s) = (if sendFails E w then Some (TransportError w) else None)"
  by (simp add: on_connection_def andThen_def ws_send_def events_def)

theorem new_observer_gets_device_state_witness:
  "events (on_connection quiet 3) connected = [WsSend 3 (Dev (Some ''/dev/ttyACM0''))] \<and>
   events (on_connection quiet 3) disconnected = [WsSend 3 (Dev None)] \<and>
   clients (snd (on_connection quiet 3 connected)) = [1, 2, 3] \<and>
   fst (on_connection quiet 3 connected) = None"
  using new_observer_gets_device_state [of quiet 3 connected]
    new_observer_gets_device_state [of quiet 3 disconnected]
  by (simp add: quiet_def connected_def disconnected_def)

section \<open>Claims about the inbound commands\<close>

text \<open>
  C10. When \<^verbatim>\<open>ebb\<close> is null, a \<^verbatim>\<open>limp\<close> or a \<^verbatim>\<open>setPenHeight\<close>
  message leaves the server as it was: no exception, no command to the device, no reply, no
  broadcast (the trace is unchanged). A \<^verbatim>\<open>ping\<close> is answered by one
  \<^verbatim>\<open>pong\<close> sent to the socket it came from.
\<close>

theorem commands_without_device_are_ignored:
  assumes "ebb s = None"
  shows "(msg_c m = ''limp'' \<or> msg_c m = ''setPenHeight'' \<longrightarrow>
            on_message E w (Text (Inr m)) s = (None, s)) \<and>
         (msg_c m = ''ping'' \<longrightarrow>
            events (on_message E w (Text (Inr m))) s = [WsSend w Pong])"
  using assms by (simp add: on_message_def ws_send_def events_def)

theorem commands_without_device_are_ignored_witness:
  "on_message quiet 1 (Text (Inr (JsMsg ''limp'' None))) disconnected = (None, disconnected) \<and>
   on_message quiet 1 (Text (Inr (JsMsg ''setPenHeight'' None))) disconnected =
     (None, disconnected) \<and>
   on_message quiet 1 (Text (Inr (JsMsg ''setPenHeight'' (Some (50, 1000))))) disconnected =
     (None, disconnected) \<and>
   events (on_message quiet 1 (Text (Inr (JsMsg ''ping'' None)))) disconnected = [WsSend 1 Pong]"
proof -
  have h: "ebb disconnected = None" by (simp add: disconnected_def)
  show ?thesis
    using commands_without_device_are_ignored [OF h, of "JsMsg ''limp'' None" quiet 1]
      commands_without_device_are_ignored [OF h, of "JsMsg ''setPenHeight'' None" quiet 1]
      commands_without_device_are_ignored [OF h, of "JsMsg ''setPenHeight'' (Some (50, 1000))" quiet 1]
      commands_without_device_are_ignored [OF h, of "JsMsg ''ping'' None" quiet 1]
    by simp
qed

section \<open>Claims about the plot request\<close>

text \<open>
  C9. For every plot request whose body deserialises to a plan: the wake lock is requested
  before the plot starts; if the request for it fails, a warning is printed and the plot runs
  all the same; if it succeeded, the wake lock is released as the last action of the handler,
  whether the plot returned (finished or cancelled) or threw; and the handler ends as the plot
  does. A body that does not deserialise makes the handler throw before anything is done.
\<close>

theorem wake_lock_held_during_plot:
  "fst (post_plot E (Inr plan) s) = fst (plot_run E plan (snd (post_plot_begin E s))) \<and>
   events (post_plot E (Inr plan)) s =
     [Log ReceivedPlan, Log (if ebb s \<noteq> None then BeginningPlot else SimulatingPlot),
      Respond 200, NewWakeLock] @
     (if wakeLockFails E then [Warn WakeLockError] else []) @
     events (plot_run E plan) (snd (post_plot_begin E s)) @
     (if fst (plot_run E plan (snd (post_plot_begin E s))) = None then [Log PlotTook] else []) @
     (if wakeLockFails E then [] else [ReleaseWakeLock]) \<and>
   post_plot E (Inl e) s = (Some e, s)"
proof -
  let ?s4 = "snd (post_plot_begin E s)"
  let ?r = "plot_run E plan ?s4"
  have tr: "trace (snd ?r) = trace ?s4 @ events (plot_run E plan) ?s4"
    by (rule extends_trace) simp
  have res: "fst (post_plot E (Inr plan) s) = fst ?r"
    unfolding post_plot_eq [OF refl] try_finally_def block_run_then_log
    by (simp add: do_emit_def split_beta post_plot_begin_fields)
  have "trace (snd (post_plot E (Inr plan) s)) =
     trace (snd ?r) @ (if fst ?r = None then [Log PlotTook] else []) @
     (if wakeLockFails E then [] else [ReleaseWakeLock])"
    unfolding post_plot_eq [OF refl] try_finally_def block_run_then_log
    by (simp add: do_emit_def split_beta post_plot_begin_fields)
  then have "events (post_plot E (Inr plan)) s =
     drop (length (trace s))
       (trace ?s4 @ events (plot_run E plan) ?s4 @
        (if fst ?r = None then [Log PlotTook] else []) @
        (if wakeLockFails E then [] else [ReleaseWakeLock]))"
    unfolding events_def [of "post_plot E (Inr plan)"] tr by simp
  then show ?thesis using res by (simp add: post_plot_begin_fields post_plot_def throw_def)
qed


theorem wake_lock_held_during_plot_witness:
  "last (events (post_plot quiet (Inr square)) connected) = ReleaseWakeLock \<and>
   fst (post_plot (failing_at (AwaitMotion 0) quiet) (Inr square) connected) =
     Some (DeviceError ''port closed'') \<and>
   events (post_plot (failing_at (AwaitMotion 0) quiet) (Inr square)) connected =
     [Log ReceivedPlan, Log BeginningPlot, Respond 200, NewWakeLock,
      Device (EnableMotors 2), Device (SetPenHeight 28000 1000 (Some 1000)),
      Broadcast (Progress 0), WsSend 1 (Progress 0), WsSend 2 (Progress 0),
      Device (ExecuteMotion (XYMotion 1)), ReleaseWakeLock] \<and>
   events (post_plot (quiet\<lparr>wakeLockFails := True\<rparr>) (Inr travel)) disconnected =
     [Log ReceivedPlan, Log SimulatingPlot, Respond 200, NewWakeLock, Warn WakeLockError,
      Log (MotionOf 1 1), Broadcast (Progress 0), WsSend 1 (Progress 0), Sleep 1000,
      Broadcast Finished, WsSend 1 Finished, Log PlotTook]"
  using wake_lock_held_during_plot [of quiet square connected]
    wake_lock_held_during_plot [of "failing_at (AwaitMotion 0) quiet" square connected]
    wake_lock_held_during_plot [of "quiet\<lparr>wakeLockFails := True\<rparr>" travel disconnected]
  by (simp add: run_simps plot_run_def post_plot_begin_def acquire_wakeLock_def
      new_WakeLock_def disconnected_def Let_def)

section \<open>Claims about the connection supervisor\<close>

text \<open>
  C5. The supervisor never stops: whatever the outside answers, and for as long as it answers,
  no exception leaves the loop, and the supervisor ends up waiting for an answer of a kind of
  which it has been given none: the next result of \<^verbatim>\<open>EBB.list()\<close>, the result of
  \<^verbatim>\<open>tryOpen\<close>, or the close of the port that is then the device of the server. Every
  transition is followed: after any sequence of rounds, each of them a discovery that
  rejects, an open that rejects (both logged and followed by a timer of 5000 ms), or a
  session (a port found and opened, the \<open>Dev\<close> message with its path broadcast, the port
  closed, the \<open>Dev\<close> message with null broadcast), with a timer of 5000 ms after each empty
  discovery, a port \<open>com\<close> that is found and opens becomes the device of the server and the
  \<open>Dev\<close> message with the path \<open>com\<close> is broadcast, after which the supervisor waits for
  the close of \<open>com\<close>; and when the outside is silent after the rounds, the supervisor
  waits for the next discovery, with the device that the last round left (none after a
  session). Nothing else is done: the trace of the server is exactly the events of the rounds.
\<close>

theorem supervisor_never_stops:
  "goes_on (connect E path F s) \<and>
   connect E None (feed_after rs (found n com others)) s =
     (Awaits (ForClose com), silence,
      s\<lparr>ebb := Some com,
        trace := trace s @ concat (map (round_events E (clients s)) rs) @
          replicate n (Sleep 5000) @
          [Log (FoundEBB com), Broadcast (Dev (Some com))] @
          deliveries E (Dev (Some com)) (clients s)\<rparr>) \<and>
   connect E None (feed_after rs silence) s =
     (Awaits ForList, silence,
      s\<lparr>ebb := fold round_ebb rs (ebb s),
        trace := trace s @ concat (map (round_events E (clients s)) rs)\<rparr>)"
  by (simp add: connect_goes_on connect_rounds connect_found connect_silence)

theorem supervisor_never_stops_witness:
  "goes_on (connect quiet None
      (feed_after [Session 1 ''/dev/ttyACM0'' [],
                   OpenFails 0 ''/dev/ttyACM0'' (OpenError ''busy''),
                   ListFails 0 (DiscoveryError ''enumeration failed'')]
         silence) disconnected) \<and>
   fst (connect quiet None
      (feed_after [Session 1 ''/dev/ttyACM0'' [],
                   OpenFails 0 ''/dev/ttyACM0'' (OpenError ''busy''),
                   ListFails 0 (DiscoveryError ''enumeration failed'')]
         (found 0 ''/dev/ttyACM1'' [])) disconnected) = Awaits (ForClose ''/dev/ttyACM1'') \<and>
   supervisor_events quiet None
      (feed_after [Session 1 ''/dev/ttyACM0'' [],
                   OpenFails 0 ''/dev/ttyACM0'' (OpenError ''busy''),
                   ListFails 0 (DiscoveryError ''enumeration failed'')]
         (found 0 ''/dev/ttyACM1'' [])) disconnected =
     [Sleep 5000, Log (FoundEBB ''/dev/ttyACM0''),
      Broadcast (Dev (Some ''/dev/ttyACM0'')), WsSend 1 (Dev (Some ''/dev/ttyACM0'')),
      Broadcast (Dev None), WsSend 1 (Dev None), LogError LostConnection,
      Log (FoundEBB ''/dev/ttyACM0''), LogError (ErrorConnecting (OpenError ''busy'')),
      LogError RetryingIn5, Sleep 5000,
      LogError (ErrorConnecting (DiscoveryError ''enumeration failed'')),
      LogError RetryingIn5, Sleep 5000,
      Log (FoundEBB ''/dev/ttyACM1''),
      Broadcast (Dev (Some ''/dev/ttyACM1'')), WsSend 1 (Dev (Some ''/dev/ttyACM1''))] \<and>
   fst (connect quiet None
      (feed_after [Session 1 ''/dev/ttyACM0'' [],
                   OpenFails 0 ''/dev/ttyACM0'' (OpenError ''busy''),
                   ListFails 0 (DiscoveryError ''enumeration failed'')]
         silence) disconnected) = Awaits ForList \<and>
   ebb (snd (snd (connect quiet None
      (feed_after [Session 1 ''/dev/ttyACM0'' [],
                   OpenFails 0 ''/dev/ttyACM0'' (OpenError ''busy''),
                   ListFails 0 (DiscoveryError ''enumeration failed'')]
         silence) disconnected))) = None"
  using supervisor_never_stops [of quiet None
      "feed_after [Session 1 ''/dev/ttyACM0'' [],
                   OpenFails 0 ''/dev/ttyACM0'' (OpenError ''busy''),
                   ListFails 0 (DiscoveryError ''enumeration failed'')]
         silence" disconnected
      "[Session 1 ''/dev/ttyACM0'' [],
                   OpenFails 0 ''/dev/ttyACM0'' (OpenError ''busy''),
                   ListFails 0 (DiscoveryError ''enumeration failed'')]"
      0 "''/dev/ttyACM1''" "[]"]
  by (simp add: supervisor_events_def quiet_def disconnected_def silence_def)

end
